theory Spec2Isabelle
  imports
    Complex_Main
    "HOL-Library.AList"
    "HOL-Library.Char_ord"
    "HOL-Library.List_Lexorder"
    "HOL-Library.Multiset"
    "HOL-Library.Signed_Division"
begin

section \<open>Run-time outcomes\<close>

text \<open>
  A Go call either returns or stops the program with a run-time panic.  The panics that
  the table package can raise are reads and writes outside a slice, an integer division
  by zero and \<^verbatim>\<open>make\<close> with a negative length.
\<close>

datatype panic = IndexOutOfRange | DivideByZero | MakeLenOutOfRange

datatype 'a run = Return 'a | Panic panic

text \<open>
  Go's \<^verbatim>\<open>int\<close> has 64 bits on the usual platforms: its values are the integers from
  \<open>- 2 ^ 63\<close> to \<open>2 ^ 63 - 1\<close>, and the result of an addition, a subtraction, a
  negation or a division that leaves this range wraps around.  \<open>int64 x\<close> is the value
  of the machine integer for the exact result \<open>x\<close>.
\<close>

definition int64 :: "int \<Rightarrow> int" where
  "int64 x = (x + 2 ^ 63) mod 2 ^ 64 - 2 ^ 63"

text \<open>
  The value of Go's \<^verbatim>\<open>error\<close> result.  The three messages built with
  \<^verbatim>\<open>fmt.Errorf\<close> are constructors; \<open>InvalidColumnIndex n l\<close> stands for
  "invalid column index n (len l)".
\<close>

datatype error =
    nil
  | InvalidColumnIndex int nat
  | InvalidKeyColumnIndex
  | KeyColumnOutOfRangeInRow

text \<open>
  A \<^verbatim>\<open>for ... range\<close> loop whose body may panic: the state is threaded through the
  elements in order and the first panic ends the loop.
\<close>

fun for_each :: "('s \<Rightarrow> 'a \<Rightarrow> 's run) \<Rightarrow> 'a list \<Rightarrow> 's \<Rightarrow> 's run" where
  "for_each body [] s = Return s"
| "for_each body (x # xs) s =
     (case body s x of Panic p \<Rightarrow> Panic p | Return s' \<Rightarrow> for_each body xs s')"

section \<open>Strings\<close>

text \<open>
  A Go string is a sequence of bytes, as \<^typ>\<open>string\<close> is.  \<open>Count_newline s\<close> is
  \<^verbatim>\<open>strings.Count(s, "\n")\<close> and \<open>Split_newline s\<close> is \<^verbatim>\<open>strings.Split(s, "\n")\<close>.
\<close>

definition newline :: char where
  "newline = CHR 0x0A"

definition Count_newline :: "string \<Rightarrow> nat" where
  "Count_newline s = length (filter (\<lambda>c. c = newline) s)"

fun Split_newline :: "string \<Rightarrow> string list" where
  "Split_newline [] = [[]]"
| "Split_newline (c # cs) =
     (if c = newline then [] # Split_newline cs
      else (c # hd (Split_newline cs)) # tl (Split_newline cs))"

text \<open>\<^verbatim>\<open>strings.ReplaceAll(s, c, "")\<close> for a one-byte \<open>c\<close>.\<close>

definition remove_char :: "char \<Rightarrow> string \<Rightarrow> string" where
  "remove_char c s = filter (\<lambda>d. d \<noteq> c) s"

text \<open>
  \<^verbatim>\<open>string([]rune{r})\<close>: the UTF-8 encoding of a rune, where a value that is no
  Unicode scalar value is encoded as U+FFFD.
\<close>

definition EncodeRune :: "int \<Rightarrow> string" where
  "EncodeRune r =
     (if r < 0 \<or> 0x10FFFF < r \<or> (0xD800 \<le> r \<and> r \<le> 0xDFFF)
        then [char_of (0xEF::int), char_of (0xBF::int), char_of (0xBD::int)]
      else if r < 0x80 then [char_of r]
      else if r < 0x800 then [char_of (0xC0 + r div 64), char_of (0x80 + r mod 64)]
      else if r < 0x10000
        then [char_of (0xE0 + r div 4096), char_of (0x80 + (r div 64) mod 64),
              char_of (0x80 + r mod 64)]
      else [char_of (0xF0 + r div 262144), char_of (0x80 + (r div 4096) mod 64),
            char_of (0x80 + (r div 64) mod 64), char_of (0x80 + r mod 64)])"

text \<open>
  \<^verbatim>\<open>fmt.Sprintf\<close> on string operands, for formats made of the verb \<^verbatim>\<open>%s\<close> and
  plain bytes, which are the only formats that \<^verbatim>\<open>Print\<close> builds.  An operand that
  is missing prints as \<^verbatim>\<open>%!s(MISSING)\<close>, operands left over are listed at the end.
\<close>

definition extra_operands :: "string list \<Rightarrow> string" where
  "extra_operands vs =
     ''%!(EXTRA '' @ concat (map (\<lambda>(k, v). (if k = 0 then [] else '', '') @ ''string='' @ v)
                              (enumerate (0::nat) vs)) @ '')''"

fun Sprintf :: "string \<Rightarrow> string list \<Rightarrow> string" where
  "Sprintf [] [] = []"
| "Sprintf [] (v # vs) = extra_operands (v # vs)"
| "Sprintf [c] vs = c # Sprintf [] vs"
| "Sprintf (c # d # f) vs =
     (if c = CHR ''%'' \<and> d = CHR ''s''
      then (case vs of
              [] \<Rightarrow> ''%!s(MISSING)'' @ Sprintf f []
            | v # vs' \<Rightarrow> v @ Sprintf f vs')
      else c # Sprintf (d # f) vs)"

section \<open>The table\<close>

text \<open>
  A \<^verbatim>\<open>Formatter\<close> has the signature of \<^verbatim>\<open>fmt.Sprintf\<close>; the operands it is given
  are the padded cells, which are strings.  A formatter that is \<^verbatim>\<open>nil\<close> is \<open>None\<close>.
  A \<^verbatim>\<open>WidthFunc\<close> maps a string to a Go \<^verbatim>\<open>int\<close>; the sums, differences and
  quotients of widths and the padding are machine integers and wrap around.

  The output sink \<^verbatim>\<open>Writer\<close> is modelled by the bytes written to it so far: a write
  appends and does not fail, as for an in-memory buffer.  \<^verbatim>\<open>WithWriter\<close> replaces the
  sink; the standard output that it takes for a \<^verbatim>\<open>nil\<close> writer is a sink like any
  other.
\<close>

type_synonym Formatter = "string \<Rightarrow> string list \<Rightarrow> string"

type_synonym WidthFunc = "string \<Rightarrow> int"

type_synonym ComparisonFunc = "string \<Rightarrow> string \<Rightarrow> int"

record SortCriterion =
  ColumnIndex :: int
  Compare :: ComparisonFunc

record table =
  FirstColumnFormatter :: "Formatter option"
  HeaderFormatter :: "Formatter option"
  StandoutFormatter :: "Formatter option"
  Padding :: int
  Writer :: string
  Width :: WidthFunc
  HeaderSeparatorRune :: int
  PrintHeaders :: bool
  header :: "string list"
  rows :: "string list list"
  widths :: "int list"

text \<open>The package-level defaults, which are variables of the package.\<close>

record defaults =
  DefaultPadding :: int
  DefaultWriter :: string
  DefaultHeaderFormatter :: "Formatter option"
  DefaultFirstColumnFormatter :: "Formatter option"
  DefaultStandoutFormatter :: "Formatter option"
  DefaultWidthFunc :: WidthFunc
  DefaultPrintHeaders :: bool

definition WithHeaderFormatter :: "table \<Rightarrow> Formatter option \<Rightarrow> table" where
  "WithHeaderFormatter t f = t\<lparr>HeaderFormatter := f\<rparr>"

definition WithHeaderSeparatorRow :: "table \<Rightarrow> int \<Rightarrow> table" where
  "WithHeaderSeparatorRow t r = t\<lparr>HeaderSeparatorRune := r\<rparr>"

definition WithFirstColumnFormatter :: "table \<Rightarrow> Formatter option \<Rightarrow> table" where
  "WithFirstColumnFormatter t f = t\<lparr>FirstColumnFormatter := f\<rparr>"

definition WithStandoutFormatter :: "table \<Rightarrow> Formatter option \<Rightarrow> table" where
  "WithStandoutFormatter t f = t\<lparr>StandoutFormatter := f\<rparr>"

definition WithPadding :: "table \<Rightarrow> int \<Rightarrow> table" where
  "WithPadding t p = t\<lparr>Padding := (if p < 0 then 0 else p)\<rparr>"

definition WithWriter :: "table \<Rightarrow> string \<Rightarrow> table" where
  "WithWriter t w = t\<lparr>Writer := w\<rparr>"

definition WithWidthFunc :: "table \<Rightarrow> WidthFunc \<Rightarrow> table" where
  "WithWidthFunc t f = t\<lparr>Width := f\<rparr>"

definition WithPrintHeaders :: "table \<Rightarrow> bool \<Rightarrow> table" where
  "WithPrintHeaders t b = t\<lparr>PrintHeaders := b\<rparr>"

text \<open>
  \<^verbatim>\<open>New\<close>, \<^verbatim>\<open>AddRow\<close> and \<^verbatim>\<open>AddRowAsArray\<close> take values of any type and turn each
  into a string with \<^verbatim>\<open>fmt.Sprint\<close>, which is the parameter \<open>Sprint\<close> here.
\<close>

definition New :: "defaults \<Rightarrow> ('v \<Rightarrow> string) \<Rightarrow> 'v list \<Rightarrow> table" where
  "New D Sprint columnHeaders =
     \<lparr>FirstColumnFormatter = DefaultFirstColumnFormatter D,
      HeaderFormatter = DefaultHeaderFormatter D,
      StandoutFormatter = DefaultStandoutFormatter D,
      Padding = (if DefaultPadding D < 0 then 0 else DefaultPadding D),
      Writer = DefaultWriter D,
      Width = DefaultWidthFunc D,
      HeaderSeparatorRune = 0,
      PrintHeaders = DefaultPrintHeaders D,
      header = map Sprint columnHeaders,
      rows = [],
      widths = []\<rparr>"

definition AddHeader :: "table \<Rightarrow> string \<Rightarrow> table" where
  "AddHeader t col = t\<lparr>header := header t @ [col]\<rparr>"

definition AddHeaders :: "table \<Rightarrow> string list \<Rightarrow> table" where
  "AddHeaders t cols = t\<lparr>header := header t @ cols\<rparr>"

definition AddHeadersAsArray :: "table \<Rightarrow> string list \<Rightarrow> table" where
  "AddHeadersAsArray t cols = foldl (\<lambda>t col. t\<lparr>header := header t @ [col]\<rparr>) t cols"

definition safeOffset :: "string list \<Rightarrow> nat \<Rightarrow> string" where
  "safeOffset sarr idx = (if idx \<ge> length sarr then [] else sarr ! idx)"

text \<open>
  The inner loop of \<^verbatim>\<open>AddRowAsArray\<close>: \<open>j\<close> is the index of the next value, the loop
  breaks at the first index that is no column of the header.
\<close>

fun fill_row ::
  "('v \<Rightarrow> string) \<Rightarrow> nat \<Rightarrow> nat \<Rightarrow> nat \<Rightarrow> 'v list \<Rightarrow> string list \<Rightarrow> string list" where
  "fill_row Sprint C i j [] row = row"
| "fill_row Sprint C i j (val # vals) row =
     (if j \<ge> C then row
      else fill_row Sprint C i (Suc j) vals
             (row[j := safeOffset (Split_newline (Sprint val)) i]))"

definition maxNumNewlines :: "('v \<Rightarrow> string) \<Rightarrow> 'v list \<Rightarrow> nat" where
  "maxNumNewlines Sprint vals = foldl (\<lambda>m val. max (Count_newline (Sprint val)) m) 0 vals"

definition AddRowAsArray :: "('v \<Rightarrow> string) \<Rightarrow> table \<Rightarrow> 'v list \<Rightarrow> table" where
  "AddRowAsArray Sprint t vals =
     foldl (\<lambda>t i. t\<lparr>rows := rows t @
                     [fill_row Sprint (length (header t)) i 0 vals
                        (replicate (length (header t)) [])]\<rparr>)
           t [0..<Suc (maxNumNewlines Sprint vals)]"

definition AddRow :: "('v \<Rightarrow> string) \<Rightarrow> table \<Rightarrow> 'v list \<Rightarrow> table" where
  "AddRow Sprint t vals = AddRowAsArray Sprint t vals"

definition SetRows :: "table \<Rightarrow> string list list \<Rightarrow> table" where
  "SetRows t rs =
     (let headerLength = length (header t)
      in foldl (\<lambda>t row. if length row > headerLength
                         then t\<lparr>rows := rows t @ [take headerLength row]\<rparr>
                         else t\<lparr>rows := rows t @ [row]\<rparr>)
               (t\<lparr>rows := []\<rparr>) rs)"

section \<open>Column widths and rendering\<close>

text \<open>
  One step of the loops of \<^verbatim>\<open>calculateWidths\<close>: the cell \<open>v\<close> at index \<open>i\<close> widens
  column \<open>i\<close> when its width plus the padding exceeds the width recorded so far.  The
  comparison reads \<^verbatim>\<open>t.widths[i]\<close>, which panics for an index outside the slice.
\<close>

definition widen :: "table \<Rightarrow> int list \<Rightarrow> nat \<times> string \<Rightarrow> int list run" where
  "widen t ws iv =
     (case iv of (i, v) \<Rightarrow>
        let w = int64 (Width t v + Padding t)
        in if i < length ws
           then (if w > ws ! i then Return (ws[i := w]) else Return ws)
           else Panic IndexOutOfRange)"

definition calculateWidths :: "table \<Rightarrow> table run" where
  "calculateWidths t =
     (case for_each (\<lambda>ws row. for_each (widen t) (enumerate 0 row) ws) (rows t)
             (replicate (length (header t)) 0) of
        Panic p \<Rightarrow> Panic p
      | Return ws \<Rightarrow>
          (case for_each (widen t) (enumerate 0 (header t)) ws of
             Panic p \<Rightarrow> Panic p
           | Return ws' \<Rightarrow> Return (t\<lparr>widths := ws'\<rparr>)))"

definition lenOffset :: "table \<Rightarrow> string \<Rightarrow> int \<Rightarrow> string" where
  "lenOffset t s w =
     (let l = int64 (w - Width t s) in if l \<le> 0 then [] else replicate (nat l) (CHR '' ''))"

definition applyWidths :: "table \<Rightarrow> string list \<Rightarrow> int list \<Rightarrow> string list run" where
  "applyWidths t row ws =
     for_each (\<lambda>out is. case is of (i, s) \<Rightarrow>
                 if i < length ws then Return (out @ [s @ lenOffset t s (ws ! i)])
                 else Panic IndexOutOfRange)
       (enumerate 0 row) []"

text \<open>\<^verbatim>\<open>fmt.Fprint\<close> and \<^verbatim>\<open>fmt.Fprintf\<close> on the table's writer.\<close>

definition Fprint :: "table \<Rightarrow> string \<Rightarrow> table" where
  "Fprint t txt = t\<lparr>Writer := Writer t @ txt\<rparr>"

definition Fprintf :: "table \<Rightarrow> string \<Rightarrow> string list \<Rightarrow> table" where
  "Fprintf t format vals = Fprint t (Sprintf format vals)"

definition printHeader :: "table \<Rightarrow> string \<Rightarrow> table run" where
  "printHeader t format =
     (case applyWidths t (header t) (widths t) of
        Panic p \<Rightarrow> Panic p
      | Return vals \<Rightarrow>
          (case HeaderFormatter t of
             Some f \<Rightarrow> Return (Fprint t (f format vals))
           | None \<Rightarrow> Return (Fprintf t format vals)))"

text \<open>
  The separator of one header cell: the rune repeated \<open>headerCellWidth / separatorCellWidth\<close>
  times.  Go's division truncates towards zero and panics on a zero divisor;
  \<^verbatim>\<open>make\<close> panics on a negative length.
\<close>

definition separator_cell :: "table \<Rightarrow> int \<Rightarrow> string \<Rightarrow> string run" where
  "separator_cell t separatorCellWidth headerName =
     (let headerCellWidth = Width t headerName
      in if separatorCellWidth = 0 then Panic DivideByZero
         else let repeatCharTimes = int64 (headerCellWidth sdiv separatorCellWidth)
              in if repeatCharTimes < 0 then Panic MakeLenOutOfRange
                 else Return (concat (replicate (nat repeatCharTimes)
                                        (EncodeRune (HeaderSeparatorRune t)))))"

definition printHeaderSeparator :: "table \<Rightarrow> string \<Rightarrow> table run" where
  "printHeaderSeparator t format =
     (let separatorCellWidth = Width t (EncodeRune (HeaderSeparatorRune t))
      in case for_each (\<lambda>seps headerName.
                  case separator_cell t separatorCellWidth headerName of
                    Panic p \<Rightarrow> Panic p
                  | Return sep \<Rightarrow> Return (seps @ [sep]))
                (header t) [] of
           Panic p \<Rightarrow> Panic p
         | Return separators \<Rightarrow>
             (case applyWidths t separators (widths t) of
                Panic p \<Rightarrow> Panic p
              | Return vals \<Rightarrow>
                  (case HeaderFormatter t of
                     Some f \<Rightarrow> Return (Fprint t (f format vals))
                   | None \<Rightarrow> Return (Fprintf t format vals))))"

definition printRow :: "table \<Rightarrow> string \<Rightarrow> string list \<Rightarrow> bool \<Rightarrow> table run" where
  "printRow t format row alternate =
     (case applyWidths t row (widths t) of
        Panic p \<Rightarrow> Panic p
      | Return vals \<Rightarrow>
          (case (case FirstColumnFormatter t of
                   None \<Rightarrow> Return vals
                 | Some f \<Rightarrow>
                     (case vals of
                        [] \<Rightarrow> Panic IndexOutOfRange
                      | v # vs \<Rightarrow> Return (f ''%s'' [v] # vs))) of
             Panic p \<Rightarrow> Panic p
           | Return vals1 \<Rightarrow>
               (let vals2 = (case StandoutFormatter t of
                               Some f \<Rightarrow> if alternate then map (\<lambda>v. f ''%s'' [v]) vals1
                                         else vals1
                             | None \<Rightarrow> vals1)
                in Return (Fprintf t format vals2))))"

definition Print :: "table \<Rightarrow> table run" where
  "Print t =
     (let format = concat (replicate (length (header t)) ''%s'') @ [newline]
      in case calculateWidths t of
           Panic p \<Rightarrow> Panic p
         | Return t1 \<Rightarrow>
             (case (if PrintHeaders t1
                    then (case printHeader t1 format of
                            Panic p \<Rightarrow> Panic p
                          | Return t2 \<Rightarrow>
                              if HeaderSeparatorRune t2 \<noteq> 0
                              then printHeaderSeparator t2 format
                              else Return t2)
                    else Return t1) of
                Panic p \<Rightarrow> Panic p
              | Return t3 \<Rightarrow>
                  for_each (\<lambda>t ir. case ir of (i, row) \<Rightarrow> printRow t format row (i mod 2 = 1))
                    (enumerate (0::nat) (rows t3)) t3))"

text \<open>
  The width that the specification gives to column \<open>j\<close>: the padding plus the largest
  metric among the header cell and the cells of the rows in that column, where a row
  that has no cell \<open>j\<close> counts as \<open>0\<close>.
\<close>

definition cell_metric :: "table \<Rightarrow> string list \<Rightarrow> nat \<Rightarrow> int" where
  "cell_metric t r j = (if j < length r then Width t (r ! j) else 0)"

definition spec_width :: "table \<Rightarrow> nat \<Rightarrow> int" where
  "spec_width t j =
     Padding t + fold (\<lambda>r m. max m (cell_metric t r j)) (rows t) (Width t (header t ! j))"

section \<open>JSON export\<close>

text \<open>
  A Go map is an association list with one entry for a key; the assignment
  \<^verbatim>\<open>m[k] = v\<close> is \<open>AList.update k v m\<close>, which replaces the value of a key that
  is present.

  \<^verbatim>\<open>json.Marshal\<close> belongs to Go's standard library.  It writes a map as an object
  whose members are ordered by key and separated by commas, without white space.  The
  encoding of a string as a JSON string literal is the parameter \<open>enc\<close>.
\<close>

type_synonym rowmap = "(string \<times> string) list"

fun join :: "string \<Rightarrow> string list \<Rightarrow> string" where
  "join sep [] = []"
| "join sep [x] = x"
| "join sep (x # y # ys) = x @ sep @ join sep (y # ys)"

definition marshal_object :: "(string \<Rightarrow> string) \<Rightarrow> (string \<times> string) list \<Rightarrow> string" where
  "marshal_object enc members =
     ''{'' @ join '','' (map (\<lambda>(k, v). enc k @ '':'' @ v) (sort_key fst members)) @ ''}''"

definition Marshal :: "(string \<Rightarrow> string) \<Rightarrow> (string \<times> rowmap) list \<Rightarrow> string" where
  "Marshal enc data =
     marshal_object enc
       (map (\<lambda>(key, rowMap). (key, marshal_object enc (map (\<lambda>(col, v). (col, enc v)) rowMap)))
          data)"

definition rowMap_of :: "string list \<Rightarrow> string list \<Rightarrow> rowmap" where
  "rowMap_of hdr row =
     foldl (\<lambda>rowMap ic. case ic of (i, col) \<Rightarrow>
              if i < length row then AList.update col (row ! i) rowMap
              else AList.update col [] rowMap)
       [] (enumerate 0 hdr)"

text \<open>The loop over the rows, which returns at the first row that has no key cell.\<close>

fun populate ::
  "string list \<Rightarrow> nat \<Rightarrow> string list list \<Rightarrow> (string \<times> rowmap) list
     \<Rightarrow> error + (string \<times> rowmap) list" where
  "populate hdr keyColumn [] data = Inr data"
| "populate hdr keyColumn (row # rest) data =
     (if keyColumn \<ge> length row then Inl KeyColumnOutOfRangeInRow
      else populate hdr keyColumn rest
             (AList.update (row ! keyColumn) (rowMap_of hdr row) data))"

definition ExportJSON :: "(string \<Rightarrow> string) \<Rightarrow> table \<Rightarrow> int \<Rightarrow> error \<times> table" where
  "ExportJSON enc t keyColumn =
     (if keyColumn < 0 \<or> keyColumn \<ge> int (length (header t)) then (InvalidKeyColumnIndex, t)
      else case populate (header t) (nat keyColumn) (rows t) [] of
             Inl e \<Rightarrow> (e, t)
           | Inr data \<Rightarrow> (nil, t\<lparr>Writer := Writer t @ Marshal enc data\<rparr>))"

section \<open>Sorting\<close>

text \<open>
  \<^verbatim>\<open>sort.SliceStable\<close> belongs to Go's standard library: it sorts a slice in place
  with the \<^verbatim>\<open>less\<close> function it is given and keeps elements that are equal in
  their order.  The model is the insertion sort that the library runs on a slice of
  up to 20 elements, comparison for comparison; on a longer slice the library sorts
  blocks of 20 elements in this way and merges them, which gives the same arrangement
  when \<^verbatim>\<open>less\<close> is a strict weak ordering.  The \<^verbatim>\<open>less\<close> functions of the package
  read cells of the two rows and panic on a row that is too short, so \<open>less\<close> returns a
  \<^typ>\<open>bool run\<close>.  The rows left behind by a panic are not modelled.
\<close>

definition swap :: "'a list \<Rightarrow> nat \<Rightarrow> nat \<Rightarrow> 'a list" where
  "swap xs i j = xs[i := xs ! j, j := xs ! i]"

text \<open>
  \<^verbatim>\<open>for j := i; j > a && less(data[j], data[j-1]); j-- { swap(j, j-1) }\<close>
\<close>

fun insertion_loop :: "('a \<Rightarrow> 'a \<Rightarrow> bool run) \<Rightarrow> nat \<Rightarrow> 'a list \<Rightarrow> nat \<Rightarrow> 'a list run" where
  "insertion_loop lessf a xs 0 = Return xs"
| "insertion_loop lessf a xs (Suc j) =
     (if Suc j > a
      then (case lessf (xs ! Suc j) (xs ! j) of
              Panic p \<Rightarrow> Panic p
            | Return b \<Rightarrow> if b then insertion_loop lessf a (swap xs (Suc j) j) j else Return xs)
      else Return xs)"

definition insertionSort :: "('a \<Rightarrow> 'a \<Rightarrow> bool run) \<Rightarrow> 'a list \<Rightarrow> nat \<Rightarrow> nat \<Rightarrow> 'a list run" where
  "insertionSort lessf xs a b = for_each (\<lambda>ys i. insertion_loop lessf a ys i) [Suc a..<b] xs"

definition SliceStable :: "('a \<Rightarrow> 'a \<Rightarrow> bool run) \<Rightarrow> 'a list \<Rightarrow> 'a list run" where
  "SliceStable lessf xs = insertionSort lessf xs 0 (length xs)"

definition index_cell :: "string list \<Rightarrow> nat \<Rightarrow> string run" where
  "index_cell row i = (if i < length row then Return (row ! i) else Panic IndexOutOfRange)"

definition SortBy_less :: "nat \<Rightarrow> ComparisonFunc \<Rightarrow> string list \<Rightarrow> string list \<Rightarrow> bool run" where
  "SortBy_less columnIndex cmpFn ri rj =
     (case index_cell ri columnIndex of
        Panic p \<Rightarrow> Panic p
      | Return x \<Rightarrow>
          (case index_cell rj columnIndex of
             Panic p \<Rightarrow> Panic p
           | Return y \<Rightarrow> Return (cmpFn x y < 0)))"

definition SortBy :: "table \<Rightarrow> int \<Rightarrow> ComparisonFunc \<Rightarrow> (error \<times> table) run" where
  "SortBy t columnIndex cmpFn =
     (if columnIndex < 0 \<or> columnIndex \<ge> int (length (header t))
      then Return (InvalidColumnIndex columnIndex (length (header t)), t)
      else case SliceStable (SortBy_less (nat columnIndex) cmpFn) (rows t) of
             Panic p \<Rightarrow> Panic p
           | Return rs \<Rightarrow> Return (nil, t\<lparr>rows := rs\<rparr>))"

text \<open>
  The criteria are given as a slice of pointers; entries that are \<^verbatim>\<open>nil\<close> and
  comparison functions that are \<^verbatim>\<open>nil\<close> are not modelled.
\<close>

fun validate_criteria :: "nat \<Rightarrow> SortCriterion list \<Rightarrow> error" where
  "validate_criteria C [] = nil"
| "validate_criteria C (criterion # criteria) =
     (if ColumnIndex criterion < 0 \<or> ColumnIndex criterion \<ge> int C
      then InvalidColumnIndex (ColumnIndex criterion) C
      else validate_criteria C criteria)"

fun SortByMultiple_less :: "SortCriterion list \<Rightarrow> string list \<Rightarrow> string list \<Rightarrow> bool run" where
  "SortByMultiple_less [] ri rj = Return False"
| "SortByMultiple_less (criterion # criteria) ri rj =
     (let colIdx = nat (ColumnIndex criterion); cmpFn = Compare criterion
      in case index_cell ri colIdx of
           Panic p \<Rightarrow> Panic p
         | Return x \<Rightarrow>
             (case index_cell rj colIdx of
                Panic p \<Rightarrow> Panic p
              | Return y \<Rightarrow>
                  (let result = cmpFn x y
                   in if result < 0 then Return True
                      else if result > 0 then Return False
                      else SortByMultiple_less criteria ri rj)))"

definition SortByMultiple :: "table \<Rightarrow> SortCriterion list \<Rightarrow> (error \<times> table) run" where
  "SortByMultiple t criteria =
     (case validate_criteria (length (header t)) criteria of
        nil \<Rightarrow>
          (case SliceStable (SortByMultiple_less criteria) (rows t) of
             Panic p \<Rightarrow> Panic p
           | Return rs \<Rightarrow> Return (nil, t\<lparr>rows := rs\<rparr>))
      | e \<Rightarrow> Return (e, t))"

section \<open>Transposing\<close>

definition first_cell :: "string list \<Rightarrow> string run" where
  "first_cell row = (case row of [] \<Rightarrow> Panic IndexOutOfRange | c # _ \<Rightarrow> Return c)"

text \<open>
  The body of the outer filling loop for the header cell at index \<open>i\<close> of
  \<^verbatim>\<open>t.header[1:]\<close>: the label goes to cell 0 of new row \<open>i\<close>, and row \<open>j\<close> gives cell
  \<open>j + 1\<close>.
\<close>

definition fill_transposed ::
  "string list list \<Rightarrow> string list list \<Rightarrow> nat \<times> string \<Rightarrow> string list list" where
  "fill_transposed old_rows newRows ih =
     (case ih of (i, hd_cell) \<Rightarrow>
        foldl (\<lambda>newRows jr. case jr of (j, row) \<Rightarrow>
                 if i + 1 < length row
                 then newRows[i := (newRows ! i)[j + 1 := row ! (i + 1)]]
                 else newRows[i := (newRows ! i)[j + 1 := []]])
          (newRows[i := (newRows ! i)[0 := hd_cell]])
          (enumerate 0 old_rows))"

definition Transpose :: "table \<Rightarrow> table run" where
  "Transpose t =
     (case first_cell (header t) of
        Panic p \<Rightarrow> Panic p
      | Return h0 \<Rightarrow>
          (case for_each (\<lambda>newHeader row.
                   case first_cell row of
                     Panic p \<Rightarrow> Panic p
                   | Return c \<Rightarrow> Return (newHeader @ [c]))
                 (rows t) [h0] of
             Panic p \<Rightarrow> Panic p
           | Return newHeader \<Rightarrow>
               (let newRows = replicate (length (header t) - 1)
                                (replicate (length (rows t) + 1) []);
                    newRows' = foldl (fill_transposed (rows t)) newRows
                                 (enumerate 0 (tl (header t)))
                in Return \<lparr>FirstColumnFormatter = FirstColumnFormatter t,
                           HeaderFormatter = HeaderFormatter t,
                           StandoutFormatter = StandoutFormatter t,
                           Padding = Padding t,
                           Writer = Writer t,
                           Width = Width t,
                           HeaderSeparatorRune = HeaderSeparatorRune t,
                           PrintHeaders = PrintHeaders t,
                           header = newHeader,
                           rows = newRows',
                           widths = []\<rparr>)))"

section \<open>Comparison functions\<close>

definition InverseComparison :: "ComparisonFunc \<Rightarrow> ComparisonFunc" where
  "InverseComparison cmp = (\<lambda>a b. int64 (- cmp a b))"

text \<open>Go orders strings byte by byte, a proper prefix before the longer string.\<close>

definition StringComparison :: ComparisonFunc where
  "StringComparison a b = (if a < b then - 1 else if a > b then 1 else 0)"

text \<open>
  \<^verbatim>\<open>strconv.ParseBool\<close> accepts exactly these twelve strings; \<open>None\<close> is a result with
  an error.
\<close>

definition ParseBool :: "string \<Rightarrow> bool option" where
  "ParseBool s =
     (if s \<in> set [''1'', ''t'', ''T'', ''TRUE'', ''true'', ''True''] then Some True
      else if s \<in> set [''0'', ''f'', ''F'', ''FALSE'', ''false'', ''False''] then Some False
      else None)"

definition BoolComparison :: ComparisonFunc where
  "BoolComparison a b =
     (case (ParseBool a, ParseBool b) of
        (None, None) \<Rightarrow> 0
      | (None, Some _) \<Rightarrow> - 1
      | (Some _, None) \<Rightarrow> 1
      | (Some x, Some y) \<Rightarrow> if x = y then 0 else if \<not> x \<and> y then - 1 else 1)"

text \<open>
  A \<^verbatim>\<open>float64\<close> as far as the comparisons \<^verbatim>\<open><\<close> and \<^verbatim>\<open>>\<close> see it: a finite value
  (both zeros are \<open>Finite 0\<close>), an infinity or a NaN, which is neither below nor above
  anything.  \<^verbatim>\<open>strconv.ParseFloat(s, 64)\<close> is the parameter \<open>ParseFloat\<close> of the numeric
  comparison functions, with \<open>None\<close> for a result with an error.
\<close>

datatype float64 = Finite rat | PosInf | NegInf | NaN

fun float_less :: "float64 \<Rightarrow> float64 \<Rightarrow> bool" where
  "float_less NaN _ = False"
| "float_less _ NaN = False"
| "float_less (Finite x) (Finite y) = (x < y)"
| "float_less NegInf (Finite _) = True"
| "float_less NegInf PosInf = True"
| "float_less (Finite _) PosInf = True"
| "float_less _ _ = False"

definition NumericalComparison :: "(string \<Rightarrow> float64 option) \<Rightarrow> ComparisonFunc" where
  "NumericalComparison ParseFloat a b =
     (case (ParseFloat a, ParseFloat b) of
        (None, None) \<Rightarrow> 0
      | (None, Some _) \<Rightarrow> 1
      | (Some _, None) \<Rightarrow> - 1
      | (Some numA, Some numB) \<Rightarrow>
          if float_less numA numB then - 1 else if float_less numB numA then 1 else 0)"

definition parseCurrencyString :: "(string \<Rightarrow> float64 option) \<Rightarrow> string \<Rightarrow> float64 option" where
  "parseCurrencyString ParseFloat s =
     (let cleanStr = remove_char (CHR ''$'') s;
          cleanStr = remove_char (CHR '','') cleanStr
      in ParseFloat cleanStr)"

definition CurrencyComparison :: "(string \<Rightarrow> float64 option) \<Rightarrow> ComparisonFunc" where
  "CurrencyComparison ParseFloat a b =
     (case (parseCurrencyString ParseFloat a, parseCurrencyString ParseFloat b) of
        (None, None) \<Rightarrow> 0
      | (None, Some _) \<Rightarrow> 1
      | (Some _, None) \<Rightarrow> - 1
      | (Some numA, Some numB) \<Rightarrow>
          if float_less numA numB then - 1 else if float_less numB numA then 1 else 0)"

definition parsePercentString :: "(string \<Rightarrow> float64 option) \<Rightarrow> string \<Rightarrow> float64 option" where
  "parsePercentString ParseFloat s = (let cleanStr = remove_char (CHR ''%'') s in ParseFloat cleanStr)"

definition PercentComparison :: "(string \<Rightarrow> float64 option) \<Rightarrow> ComparisonFunc" where
  "PercentComparison ParseFloat a b =
     (case (parsePercentString ParseFloat a, parsePercentString ParseFloat b) of
        (None, None) \<Rightarrow> 0
      | (None, Some _) \<Rightarrow> 1
      | (Some _, None) \<Rightarrow> - 1
      | (Some numA, Some numB) \<Rightarrow>
          if float_less numA numB then - 1 else if float_less numB numA then 1 else 0)"

section \<open>Lines of a value\<close>

text \<open>
  Line \<open>i\<close> of a string that is split at its line breaks, and the empty string when
  the string has fewer than \<open>i + 1\<close> lines.
\<close>

definition line :: "nat \<Rightarrow> string \<Rightarrow> string" where
  "line i s = (if i < length (Split_newline s) then Split_newline s ! i else [])"

section \<open>Cells of a row\<close>

text \<open>Cell \<open>i\<close> of a row, and the empty string when the row has no cell \<open>i\<close>.\<close>

definition cell :: "string list \<Rightarrow> nat \<Rightarrow> string" where
  "cell row i = (if i < length row then row ! i else [])"

section \<open>Rows that compare equal\<close>




section \<open>Example tables\<close>

text \<open>
  A table as \<^verbatim>\<open>New\<close> builds it from the initial defaults of the package, with the
  number of bytes as the width of a string (the default \<^verbatim>\<open>utf8.RuneCountInString\<close>
  on ASCII text) and an empty in-memory writer.
\<close>

definition plain :: "string list \<Rightarrow> table" where
  "plain hdr =
     \<lparr>FirstColumnFormatter = None, HeaderFormatter = None, StandoutFormatter = None,
      Padding = 2, Writer = [], Width = (\<lambda>s. int (length s)), HeaderSeparatorRune = 0,
      PrintHeaders = True, header = hdr, rows = [], widths = []\<rparr>"

definition people :: table where
  "people =
     SetRows (plain [''Name'', ''Age'', ''City''])
       [[''Alice'', ''30'', ''New York''],
        [''Bob'', ''25'', ''Los Angeles''],
        [''Alice'', ''30'', ''Chicago'']]"

definition by_age_then_name :: "SortCriterion list" where
  "by_age_then_name =
     [\<lparr>ColumnIndex = 1, Compare = StringComparison\<rparr>,
      \<lparr>ColumnIndex = 0, Compare = InverseComparison StringComparison\<rparr>]"

text \<open>The rows of the test of \<^verbatim>\<open>SortByMultiple\<close> in the repository.\<close>

definition test_rows :: "string list list" where
  "test_rows =
     [[''Alice'', ''30'', ''New York''],
      [''Bob'', ''25'', ''Los Angeles''],
      [''Charlie'', ''35'', ''Chicago''],
      [''David'', ''30'', ''Chicago''],
      [''Eve'', ''35'', ''Los Angeles'']]"


text \<open>
  A table of one column whose width function is \<open>- 5\<close> for every string, and one whose
  padding is the largest machine integer; both are set through the package.
\<close>

definition below_zero :: table where
  "below_zero = WithWidthFunc (plain [''AB'']) (\<lambda>s. - 5)"

definition widest :: table where
  "widest = WithPadding (plain [''AB'']) (2 ^ 63 - 1)"

text \<open>Two rows of one cell under a header of two columns, as \<^verbatim>\<open>SetRows\<close> stores them.\<close>

definition two_short :: table where
  "two_short = SetRows (plain [''A'', ''B'']) [[''x''], [''y'']]"

text \<open>
  A table with the header separator \<^verbatim>\<open>-\<close> and a second row of one cell, and the text
  that \<^verbatim>\<open>Print\<close> writes for it.
\<close>

definition report :: table where
  "report =
     SetRows (WithHeaderSeparatorRow (plain [''ID'', ''Name'']) 45)
       [[''1'', ''Foobar''], [''2'']]"

definition report_text :: string where
  "report_text =
     ''ID  Name    '' @ [newline] @
     ''--  ----    '' @ [newline] @
     ''1   Foobar  '' @ [newline] @
     ''2   %!s(MISSING)'' @ [newline]"

text \<open>
  The table of the JSON example, and one with the key \<^verbatim>\<open>1\<close> in both rows.  A string
  without a byte that JSON escapes is encoded by quotation marks around it.
\<close>

definition ids :: table where
  "ids = SetRows (plain [''ID'', ''Name'']) [[''1'', ''Foo''], [''2'', ''Bar'']]"

definition ids_json :: string where
  "ids_json = ''{\"1\":{\"ID\":\"1\",\"Name\":\"Foo\"},\"2\":{\"ID\":\"2\",\"Name\":\"Bar\"}}''"

definition twins :: table where
  "twins = SetRows (plain [''ID'', ''Name'']) [[''1'', ''Foo''], [''1'', ''Bar'']]"

definition twins_json :: string where
  "twins_json = ''{\"1\":{\"ID\":\"1\",\"Name\":\"Bar\"}}''"

definition quoted :: "string \<Rightarrow> string" where
  "quoted s = ''\"'' @ s @ ''\"''"

text \<open>A parser that accepts the strings of one to fifteen decimal digits, on which it
  agrees with \<^verbatim>\<open>strconv.ParseFloat\<close>, and nothing else.\<close>

definition digit_value :: "char \<Rightarrow> nat" where
  "digit_value c = of_char c - 48"

definition parse_digits :: "string \<Rightarrow> float64 option" where
  "parse_digits s =
     (if s \<noteq> [] \<and> length s \<le> 15 \<and> list_all (\<lambda>c. CHR ''0'' \<le> c \<and> c \<le> CHR ''9'') s
      then Some (Finite (of_nat (foldl (\<lambda>n c. 10 * n + digit_value c) 0 s)))
      else None)"

section \<open>Well-formed tables\<close>

text \<open>
  The padding of a table is not negative and no row is longer than the header.  The
  fields of a table can only be set through the functions of the package, which keep
  both properties: \<^verbatim>\<open>WithPadding\<close> clamps the padding, \<^verbatim>\<open>AddRowAsArray\<close> makes rows
  as long as the header, \<^verbatim>\<open>SetRows\<close> truncates longer rows, headers are only added, a
  sort rearranges the rows and \<^verbatim>\<open>Transpose\<close> makes the new rows as long as the new
  header.  Rows shorter than the header are well formed.
\<close>

definition well_formed :: "table \<Rightarrow> bool" where
  "well_formed t =
     (0 \<le> Padding t \<and> list_all (\<lambda>r. length r \<le> length (header t)) (rows t))"

text \<open>
  The metric of every cell of the header is not negative, and the sum of the padding and
  the metric of any cell of the header or of a row is a machine integer (from below this
  is so in Go for every metric once the padding is not negative).
\<close>

definition cells_in_range :: "table \<Rightarrow> bool" where
  "cells_in_range t =
     (list_all (\<lambda>v. 0 \<le> Width t v) (header t) \<and>
      list_all (\<lambda>v. - (2 ^ 63) \<le> Width t v + Padding t \<and> Width t v + Padding t < 2 ^ 63)
        (header t @ concat (rows t)))"

section \<open>Auxiliary functions\<close>

text \<open>
  The value that a cell compares with the width of its column, and the effect of one row
  on the widths, and on the width of column \<open>j\<close>, in closed form.
\<close>

definition gain :: "table \<Rightarrow> string \<Rightarrow> int" where
  "gain t v = int64 (Width t v + Padding t)"

definition widen_row :: "table \<Rightarrow> string list \<Rightarrow> int list \<Rightarrow> int list" where
  "widen_row t r ws =
     map (\<lambda>i. if i < length r then max (ws ! i) (gain t (r ! i)) else ws ! i)
       [0..<length ws]"

definition raise :: "table \<Rightarrow> nat \<Rightarrow> string list \<Rightarrow> int \<Rightarrow> int" where
  "raise t j r m = (if j < length r then max m (gain t (r ! j)) else m)"

section \<open>Properties of the loops\<close>

lemma for_each_identity:
  "(\<And>s x. body s x = Return s) \<Longrightarrow> for_each body xs s = Return s"
  by (induction xs) auto

lemma insertion_loop_never_less:
  "(\<And>x y. lessf x y = Return False) \<Longrightarrow> insertion_loop lessf a xs j = Return xs"
  by (cases j) auto

lemma SliceStable_never_less:
  "(\<And>x y. lessf x y = Return False) \<Longrightarrow> SliceStable lessf xs = Return xs"
  unfolding SliceStable_def insertionSort_def
  by (rule for_each_identity) (rule insertion_loop_never_less)

section \<open>Sorting: the empty list of criteria\<close>

text \<open>
  C10.  \<^verbatim>\<open>SortByMultiple\<close> with an empty list of criteria returns no error and leaves
  the table, and so the sequence of its rows, as it was: the \<^verbatim>\<open>less\<close> function reads
  no cell and is false for every pair of rows.
\<close>

theorem SortByMultiple_empty_criteria: "SortByMultiple t [] = Return (nil, t)"
  by (simp add: SortByMultiple_def SliceStable_never_less)

section \<open>Sorting: validation of the column index\<close>

lemma validate_criteria_nil:
  "(validate_criteria C cs = nil) =
     (\<forall>c\<in>set cs. \<not> (ColumnIndex c < 0 \<or> int C \<le> ColumnIndex c))"
  by (induction cs) auto

lemma validate_criteria_error:
  "validate_criteria C cs \<noteq> nil \<Longrightarrow>
     \<exists>c\<in>set cs. (ColumnIndex c < 0 \<or> int C \<le> ColumnIndex c) \<and>
        validate_criteria C cs = InvalidColumnIndex (ColumnIndex c) C"
  by (induction cs) (auto split: if_splits)

lemma rows_people:
  "rows people =
     [[''Alice'', ''30'', ''New York''], [''Bob'', ''25'', ''Los Angeles''],
      [''Alice'', ''30'', ''Chicago'']]"
  by (simp add: people_def plain_def SetRows_def)

lemma header_people: "header people = [''Name'', ''Age'', ''City'']"
  by (simp add: people_def plain_def SetRows_def)

lemma sorted_people_by_age:
  "SliceStable (SortBy_less (Suc 0) StringComparison) (rows people) =
     Return [[''Bob'', ''25'', ''Los Angeles''], [''Alice'', ''30'', ''New York''],
             [''Alice'', ''30'', ''Chicago'']]"
  unfolding rows_people by code_simp

lemma sorted_people_by_age_then_name:
  "SliceStable (SortByMultiple_less by_age_then_name) (rows people) =
     Return [[''Bob'', ''25'', ''Los Angeles''], [''Alice'', ''30'', ''New York''],
             [''Alice'', ''30'', ''Chicago'']]"
  unfolding rows_people by code_simp

lemma valid_by_age_then_name:
  "validate_criteria (length (header people)) by_age_then_name = nil"
  by (simp add: by_age_then_name_def header_people)

text \<open>
  C6.  \<^verbatim>\<open>SortBy\<close> returns the error "invalid column index" exactly when the column
  index is below \<open>0\<close> or not below the length of the header, and \<^verbatim>\<open>SortByMultiple\<close>
  returns it exactly when the index of some criterion is; with an index in range, a call
  that returns returns \<^verbatim>\<open>nil\<close>.  When the error is returned the table, and with it the
  sequence of rows, is the one before the call.
\<close>

theorem sort_validation:
  "((n < 0 \<or> int (length (header t)) \<le> n) \<longrightarrow>
      SortBy t n cmp = Return (InvalidColumnIndex n (length (header t)), t)) \<and>
   (\<not> (n < 0 \<or> int (length (header t)) \<le> n) \<longrightarrow>
      (\<forall>e t'. SortBy t n cmp = Return (e, t') \<longrightarrow> e = nil)) \<and>
   ((\<exists>c\<in>set cs. ColumnIndex c < 0 \<or> int (length (header t)) \<le> ColumnIndex c) \<longrightarrow>
      (\<exists>c\<in>set cs. (ColumnIndex c < 0 \<or> int (length (header t)) \<le> ColumnIndex c) \<and>
         SortByMultiple t cs =
           Return (InvalidColumnIndex (ColumnIndex c) (length (header t)), t))) \<and>
   (\<not> (\<exists>c\<in>set cs. ColumnIndex c < 0 \<or> int (length (header t)) \<le> ColumnIndex c) \<longrightarrow>
      (\<forall>e t'. SortByMultiple t cs = Return (e, t') \<longrightarrow> e = nil))"
proof (intro conjI impI allI)
  assume "n < 0 \<or> int (length (header t)) \<le> n"
  then show "SortBy t n cmp = Return (InvalidColumnIndex n (length (header t)), t)"
    by (auto simp: SortBy_def)
next
  fix e t'
  assume "\<not> (n < 0 \<or> int (length (header t)) \<le> n)" and "SortBy t n cmp = Return (e, t')"
  then show "e = nil"
    by (auto simp: SortBy_def split: run.splits)
next
  assume "\<exists>c\<in>set cs. ColumnIndex c < 0 \<or> int (length (header t)) \<le> ColumnIndex c"
  then have "validate_criteria (length (header t)) cs \<noteq> nil"
    by (simp add: validate_criteria_nil)
  from validate_criteria_error [OF this]
  obtain c where c: "c \<in> set cs"
    "ColumnIndex c < 0 \<or> int (length (header t)) \<le> ColumnIndex c"
    "validate_criteria (length (header t)) cs =
       InvalidColumnIndex (ColumnIndex c) (length (header t))"
    by blast
  then have "SortByMultiple t cs =
      Return (InvalidColumnIndex (ColumnIndex c) (length (header t)), t)"
    by (simp add: SortByMultiple_def)
  with c show "\<exists>c\<in>set cs. (ColumnIndex c < 0 \<or> int (length (header t)) \<le> ColumnIndex c) \<and>
      SortByMultiple t cs = Return (InvalidColumnIndex (ColumnIndex c) (length (header t)), t)"
    by blast
next
  fix e t'
  assume "\<not> (\<exists>c\<in>set cs. ColumnIndex c < 0 \<or> int (length (header t)) \<le> ColumnIndex c)"
    and r: "SortByMultiple t cs = Return (e, t')"
  then have "validate_criteria (length (header t)) cs = nil"
    by (simp add: validate_criteria_nil)
  with r show "e = nil"
    by (auto simp: SortByMultiple_def split: run.splits)
qed

text \<open>
  The column index equal to the length of the header, and a criterion on column 5 of a
  table of three columns; with the column 1 both calls return \<^verbatim>\<open>nil\<close>.
\<close>

theorem sort_validation_witness:
  "SortBy people 3 StringComparison = Return (InvalidColumnIndex 3 3, people) \<and>
   SortByMultiple people [\<lparr>ColumnIndex = 1, Compare = StringComparison\<rparr>,
                          \<lparr>ColumnIndex = 5, Compare = StringComparison\<rparr>]
     = Return (InvalidColumnIndex 5 3, people) \<and>
   (\<exists>t'. SortBy people 1 StringComparison = Return (nil, t')) \<and>
   (\<exists>t'. SortByMultiple people by_age_then_name = Return (nil, t'))"
proof -
  have 1: "SortBy people 3 StringComparison = Return (InvalidColumnIndex 3 3, people)"
    using sort_validation [of 3 people StringComparison "[]"]
    by (simp add: header_people)
  have 2: "SortByMultiple people [\<lparr>ColumnIndex = 1, Compare = StringComparison\<rparr>,
                                  \<lparr>ColumnIndex = 5, Compare = StringComparison\<rparr>]
             = Return (InvalidColumnIndex 5 3, people)"
    using sort_validation [of 0 people StringComparison
        "[\<lparr>ColumnIndex = 1, Compare = StringComparison\<rparr>,
          \<lparr>ColumnIndex = 5, Compare = StringComparison\<rparr>]"]
    by (simp add: header_people)
  have 3: "\<exists>t'. SortBy people 1 StringComparison = Return (nil, t')"
    by (simp add: SortBy_def header_people sorted_people_by_age)
  have 4: "\<exists>t'. SortByMultiple people by_age_then_name = Return (nil, t')"
    by (simp add: SortByMultiple_def valid_by_age_then_name sorted_people_by_age_then_name)
  from 1 2 3 4 show ?thesis by blast
qed

section \<open>Sorting: stability\<close>

lemma swap_append:
  "swap (as @ x # y # bs) (Suc (length as)) (length as) = as @ y # x # bs"
  by (simp add: swap_def nth_append list_update_append)

lemma split_at_pair:
  assumes "Suc j < length xs"
  shows "xs = take j xs @ xs ! j # xs ! Suc j # drop (Suc (Suc j)) xs"
proof -
  have "drop j xs = xs ! j # drop (Suc j) xs"
    using assms by (simp add: Cons_nth_drop_Suc)
  moreover have "drop (Suc j) xs = xs ! Suc j # drop (Suc (Suc j)) xs"
    using assms by (simp add: Cons_nth_drop_Suc)
  ultimately have
    "take j xs @ xs ! j # xs ! Suc j # drop (Suc (Suc j)) xs = take j xs @ drop j xs"
    by simp
  then show ?thesis by simp
qed

lemma length_swap [simp]: "length (swap xs i j) = length xs"
  by (simp add: swap_def)

text \<open>
  Swapping two neighbours changes the subsequence of the elements that satisfy \<open>P\<close> only
  if both satisfy \<open>P\<close> and they differ.
\<close>

lemma filter_swap:
  assumes "Suc j < length xs"
    and "\<not> (P (xs ! Suc j) \<and> P (xs ! j) \<and> xs ! Suc j \<noteq> xs ! j)"
  shows "filter P (swap xs (Suc j) j) = filter P xs"
proof -
  define as where "as = take j xs"
  define bs where "bs = drop (Suc (Suc j)) xs"
  have xs: "xs = as @ xs ! j # xs ! Suc j # bs"
    unfolding as_def bs_def by (rule split_at_pair [OF assms(1)])
  have j: "length as = j"
    using assms(1) by (simp add: as_def)
  have "swap (as @ xs ! j # xs ! Suc j # bs) (Suc (length as)) (length as) =
        as @ xs ! Suc j # xs ! j # bs"
    by (rule swap_append)
  then have sw: "swap xs (Suc j) j = as @ xs ! Suc j # xs ! j # bs"
    using xs j by simp
  have "filter P (as @ xs ! Suc j # xs ! j # bs) = filter P (as @ xs ! j # xs ! Suc j # bs)"
    using assms(2) by auto
  with sw xs show ?thesis by simp
qed

lemma mset_swap_rows:
  "i < length xs \<Longrightarrow> j < length xs \<Longrightarrow> mset (swap xs i j) = mset xs"
  by (simp add: swap_def mset_swap)

lemma insertion_loop_stable:
  assumes "\<And>x y. P x \<Longrightarrow> P y \<Longrightarrow> x \<noteq> y \<Longrightarrow> lessf x y \<noteq> Return True"
    and "j < length xs" and "insertion_loop lessf a xs j = Return ys"
  shows "filter P ys = filter P xs \<and> length ys = length xs \<and> mset ys = mset xs"
  using assms(2,3)
proof (induction j arbitrary: xs)
  case 0
  then show ?case by simp
next
  case (Suc j)
  show ?case
  proof (cases "Suc j > a \<and> lessf (xs ! Suc j) (xs ! j) = Return True")
    case True
    then have rec: "insertion_loop lessf a (swap xs (Suc j) j) j = Return ys"
      using Suc.prems by simp
    have "j < length (swap xs (Suc j) j)"
      using Suc.prems by simp
    from Suc.IH [OF this rec]
    have ih: "filter P ys = filter P (swap xs (Suc j) j)" "length ys = length xs"
      "mset ys = mset (swap xs (Suc j) j)"
      by simp_all
    have "\<not> (P (xs ! Suc j) \<and> P (xs ! j) \<and> xs ! Suc j \<noteq> xs ! j)"
      using True assms(1) by blast
    with ih Suc.prems show ?thesis
      by (simp add: filter_swap mset_swap_rows)
  next
    case False
    then have "ys = xs"
      using Suc.prems by (auto split: if_splits run.splits)
    then show ?thesis by simp
  qed
qed

lemma insertion_passes_stable:
  assumes "\<And>x y. P x \<Longrightarrow> P y \<Longrightarrow> x \<noteq> y \<Longrightarrow> lessf x y \<noteq> Return True"
    and "\<forall>i\<in>set is. i < length xs"
    and "for_each (\<lambda>ys i. insertion_loop lessf a ys i) is xs = Return zs"
  shows "filter P zs = filter P xs \<and> length zs = length xs \<and> mset zs = mset xs"
  using assms(2,3)
proof (induction "is" arbitrary: xs)
  case Nil
  then show ?case by simp
next
  case (Cons i "is")
  from Cons.prems obtain ys where ys: "insertion_loop lessf a xs i = Return ys"
    and rest: "for_each (\<lambda>ys i. insertion_loop lessf a ys i) is ys = Return zs"
    by (auto split: run.splits)
  have i: "i < length xs"
    using Cons.prems by simp
  from insertion_loop_stable [OF assms(1) i ys]
  have step: "filter P ys = filter P xs" "length ys = length xs" "mset ys = mset xs"
    by simp_all
  have "\<forall>i\<in>set is. i < length ys"
    using Cons.prems step by simp
  from Cons.IH [OF this rest] step show ?case by simp
qed

text \<open>
  The sort rearranges the elements, and it keeps the order of the elements that satisfy
  \<open>P\<close> when no two different ones among them are in the relation \<open>lessf\<close>.
\<close>

lemma SliceStable_stable:
  assumes "\<And>x y. P x \<Longrightarrow> P y \<Longrightarrow> x \<noteq> y \<Longrightarrow> lessf x y \<noteq> Return True"
    and "SliceStable lessf xs = Return zs"
  shows "filter P zs = filter P xs \<and> mset zs = mset xs"
proof -
  have bound: "\<forall>i\<in>set [Suc 0..<length xs]. i < length xs"
    by simp
  have run: "for_each (\<lambda>ys i. insertion_loop lessf 0 ys i) [Suc 0..<length xs] xs = Return zs"
    using assms(2) by (simp add: SliceStable_def insertionSort_def)
  have "filter P zs = filter P xs \<and> length zs = length xs \<and> mset zs = mset xs"
    by (rule insertion_passes_stable [OF assms(1) bound run])
  then show ?thesis by simp
qed





section \<open>Sorting a table with full rows\<close>

lemma insertion_loop_returns:
  assumes "\<And>x y. x \<in># m \<Longrightarrow> y \<in># m \<Longrightarrow> \<exists>b. lessf x y = Return b"
  shows "mset xs = m \<Longrightarrow> j < length xs \<Longrightarrow> \<exists>ys. insertion_loop lessf a xs j = Return ys \<and> mset ys = m"
proof (induction j arbitrary: xs)
  case 0
  then show ?case by simp
next
  case (Suc j)
  have "xs ! Suc j \<in> set xs" "xs ! j \<in> set xs"
    using Suc.prems(2) by simp_all
  then have "xs ! Suc j \<in># m" "xs ! j \<in># m"
    unfolding Suc.prems(1) [symmetric] by simp_all
  from assms [OF this] obtain b where b: "lessf (xs ! Suc j) (xs ! j) = Return b"
    by blast
  show ?case
  proof (cases "Suc j > a \<and> b")
    case True
    have "mset (swap xs (Suc j) j) = m" "j < length (swap xs (Suc j) j)"
      using Suc.prems by (simp_all add: mset_swap_rows)
    from Suc.IH [OF this] True b show ?thesis by simp
  next
    case False
    with b Suc.prems show ?thesis by auto
  qed
qed

lemma insertion_passes_return:
  assumes "\<And>x y. x \<in># m \<Longrightarrow> y \<in># m \<Longrightarrow> \<exists>b. lessf x y = Return b"
  shows "mset xs = m \<Longrightarrow> \<forall>i\<in>set is. i < length xs \<Longrightarrow>
     \<exists>zs. for_each (\<lambda>ys i. insertion_loop lessf a ys i) is xs = Return zs \<and> mset zs = m"
proof (induction "is" arbitrary: xs)
  case Nil
  then show ?case by simp
next
  case (Cons i "is")
  have "i < length xs" using Cons.prems by simp
  from insertion_loop_returns [of m lessf, OF assms Cons.prems(1) this]
  obtain ys where ys: "insertion_loop lessf a xs i = Return ys" "mset ys = m"
    by blast
  then have "length ys = length xs"
    using Cons.prems(1) by (metis size_mset)
  then have "\<forall>i\<in>set is. i < length ys"
    using Cons.prems by simp
  from Cons.IH [OF ys(2) this] ys(1) show ?case by simp
qed

lemma SliceStable_returns:
  assumes "\<And>x y. x \<in> set xs \<Longrightarrow> y \<in> set xs \<Longrightarrow> \<exists>b. lessf x y = Return b"
  shows "\<exists>zs. SliceStable lessf xs = Return zs"
proof -
  have "\<And>x y. x \<in># mset xs \<Longrightarrow> y \<in># mset xs \<Longrightarrow> \<exists>b. lessf x y = Return b"
    using assms by simp
  from insertion_passes_return [of "mset xs" lessf xs "[Suc 0..<length xs]" 0, OF this]
  show ?thesis
    by (auto simp: SliceStable_def insertionSort_def)
qed

lemma SortByMultiple_less_returns:
  "\<forall>c\<in>set cs. nat (ColumnIndex c) < length x \<and> nat (ColumnIndex c) < length y \<Longrightarrow>
   \<exists>b. SortByMultiple_less cs x y = Return b"
  by (induction cs) (auto simp: index_cell_def Let_def)

text \<open>
  On a table whose rows all have the columns that are compared, the sorts return.
\<close>

lemma sort_returns:
  "0 \<le> n \<Longrightarrow> n < int (length (header t)) \<Longrightarrow> \<forall>r\<in>set (rows t). nat n < length r \<Longrightarrow>
     \<exists>t'. SortBy t n cmp = Return (nil, t')"
  "validate_criteria (length (header t)) cs = nil \<Longrightarrow>
   \<forall>c\<in>set cs. \<forall>r\<in>set (rows t). nat (ColumnIndex c) < length r \<Longrightarrow>
     \<exists>t'. SortByMultiple t cs = Return (nil, t')"
proof -
  assume "0 \<le> n" "n < int (length (header t))" and full: "\<forall>r\<in>set (rows t). nat n < length r"
  moreover have "\<exists>zs. SliceStable (SortBy_less (nat n) cmp) (rows t) = Return zs"
    using full by (intro SliceStable_returns) (simp add: SortBy_less_def index_cell_def)
  ultimately show "\<exists>t'. SortBy t n cmp = Return (nil, t')"
    by (auto simp: SortBy_def)
next
  assume v: "validate_criteria (length (header t)) cs = nil"
    and full: "\<forall>c\<in>set cs. \<forall>r\<in>set (rows t). nat (ColumnIndex c) < length r"
  have "\<exists>zs. SliceStable (SortByMultiple_less cs) (rows t) = Return zs"
    using full by (intro SliceStable_returns SortByMultiple_less_returns) blast
  with v show "\<exists>t'. SortByMultiple t cs = Return (nil, t')"
    by (auto simp: SortByMultiple_def)
qed

text \<open>
  The test of the repository: by age, and for the same age by name in descending order.
\<close>

lemma sort_test_example:
  "SliceStable (SortByMultiple_less by_age_then_name) test_rows =
     Return [[''Bob'', ''25'', ''Los Angeles''], [''David'', ''30'', ''Chicago''],
             [''Alice'', ''30'', ''New York''], [''Eve'', ''35'', ''Los Angeles''],
             [''Charlie'', ''35'', ''Chicago'']]"
  unfolding test_rows_def by code_simp

section \<open>Sorting a table with short rows\<close>

lemma rows_two_short: "rows two_short = [[''x''], [''y'']]"
  by (simp add: two_short_def plain_def SetRows_def)

lemma header_two_short: "header two_short = [''A'', ''B'']"
  by (simp add: two_short_def plain_def SetRows_def)

text \<open>
  C8.  \<^verbatim>\<open>SetRows\<close> keeps a row that is shorter than the header as it is.  With two
  such rows, \<^verbatim>\<open>SortBy\<close> on column 1, which is a column of the header, does not return:
  the first comparison reads cell 1 of a row of one cell and the program panics with
  an index out of range.  \<^verbatim>\<open>SortByMultiple\<close> with the one criterion on column 1 does
  the same.
\<close>

theorem sort_short_rows_panic:
  "SortBy two_short 1 StringComparison = Panic IndexOutOfRange \<and>
   SortByMultiple two_short [\<lparr>ColumnIndex = 1, Compare = StringComparison\<rparr>]
     = Panic IndexOutOfRange"
  by (simp add: SortBy_def SortByMultiple_def header_two_short rows_two_short
      SliceStable_def insertionSort_def SortBy_less_def index_cell_def)

section \<open>Comparison functions\<close>

text \<open>
  C5.  The contract of the comparison functions.  A value is unparsable for a numeric
  comparison when the parse of the package (\<^verbatim>\<open>strconv.ParseFloat\<close>, after the
  currency or percent signs are removed) returns an error, and for the boolean comparison
  when \<^verbatim>\<open>strconv.ParseBool\<close> does.  In the numeric comparisons an unparsable value
  comes after a parsable one, in the boolean comparison before it, and two unparsable
  values are equal.  The results on "10" and "5" and on "bad" and "5" are those of the
  specification for every parser that reads "10" and "5" as the numbers 10 and 5 and
  rejects "bad".
\<close>

theorem comparator_contract:
  "StringComparison ''apple'' ''banana'' = - 1 \<and>
   (ParseFloat ''10'' = Some (Finite 10) \<and> ParseFloat ''5'' = Some (Finite 5) \<longrightarrow>
      NumericalComparison ParseFloat ''10'' ''5'' = 1) \<and>
   (ParseFloat a = None \<and> ParseFloat b \<noteq> None \<longrightarrow>
      NumericalComparison ParseFloat a b = 1 \<and> NumericalComparison ParseFloat b a = - 1) \<and>
   (ParseFloat a = None \<and> ParseFloat b = None \<longrightarrow> NumericalComparison ParseFloat a b = 0) \<and>
   (parseCurrencyString ParseFloat a = None \<and> parseCurrencyString ParseFloat b \<noteq> None \<longrightarrow>
      CurrencyComparison ParseFloat a b = 1 \<and> CurrencyComparison ParseFloat b a = - 1) \<and>
   (parseCurrencyString ParseFloat a = None \<and> parseCurrencyString ParseFloat b = None \<longrightarrow>
      CurrencyComparison ParseFloat a b = 0) \<and>
   (parsePercentString ParseFloat a = None \<and> parsePercentString ParseFloat b \<noteq> None \<longrightarrow>
      PercentComparison ParseFloat a b = 1 \<and> PercentComparison ParseFloat b a = - 1) \<and>
   (parsePercentString ParseFloat a = None \<and> parsePercentString ParseFloat b = None \<longrightarrow>
      PercentComparison ParseFloat a b = 0) \<and>
   (ParseBool a = None \<and> ParseBool b \<noteq> None \<longrightarrow>
      BoolComparison a b = - 1 \<and> BoolComparison b a = 1) \<and>
   (ParseBool a = None \<and> ParseBool b = None \<longrightarrow> BoolComparison a b = 0) \<and>
   (ParseFloat ''bad'' = None \<and> ParseFloat ''5'' \<noteq> None \<longrightarrow>
      NumericalComparison ParseFloat ''bad'' ''5'' = 1) \<and>
   BoolComparison ''invalid'' ''false'' = - 1"
proof -
  have s: "StringComparison ''apple'' ''banana'' = - 1"
    by (simp add: StringComparison_def less_char_def)
  have b: "BoolComparison ''invalid'' ''false'' = - 1"
    by (simp add: BoolComparison_def ParseBool_def)
  have n: "\<And>x y. ParseFloat x = None \<and> ParseFloat y \<noteq> None \<longrightarrow>
      NumericalComparison ParseFloat x y = 1 \<and> NumericalComparison ParseFloat y x = - 1"
    by (auto simp: NumericalComparison_def)
  have c: "parseCurrencyString ParseFloat a = None \<and> parseCurrencyString ParseFloat b \<noteq> None \<longrightarrow>
      CurrencyComparison ParseFloat a b = 1 \<and> CurrencyComparison ParseFloat b a = - 1"
    by (auto simp: CurrencyComparison_def)
  have p: "parsePercentString ParseFloat a = None \<and> parsePercentString ParseFloat b \<noteq> None \<longrightarrow>
      PercentComparison ParseFloat a b = 1 \<and> PercentComparison ParseFloat b a = - 1"
    by (auto simp: PercentComparison_def)
  have l: "ParseBool a = None \<and> ParseBool b \<noteq> None \<longrightarrow>
      BoolComparison a b = - 1 \<and> BoolComparison b a = 1"
    by (auto simp: BoolComparison_def)
  have t: "ParseFloat ''10'' = Some (Finite 10) \<and> ParseFloat ''5'' = Some (Finite 5) \<longrightarrow>
      NumericalComparison ParseFloat ''10'' ''5'' = 1"
    by (simp add: NumericalComparison_def)
  have e: "(ParseFloat a = None \<and> ParseFloat b = None \<longrightarrow> NumericalComparison ParseFloat a b = 0) \<and>
      (parseCurrencyString ParseFloat a = None \<and> parseCurrencyString ParseFloat b = None \<longrightarrow>
         CurrencyComparison ParseFloat a b = 0) \<and>
      (parsePercentString ParseFloat a = None \<and> parsePercentString ParseFloat b = None \<longrightarrow>
         PercentComparison ParseFloat a b = 0) \<and>
      (ParseBool a = None \<and> ParseBool b = None \<longrightarrow> BoolComparison a b = 0)"
    by (simp add: NumericalComparison_def CurrencyComparison_def PercentComparison_def
        BoolComparison_def)
  have n1: "ParseFloat a = None \<and> ParseFloat b \<noteq> None \<longrightarrow>
      NumericalComparison ParseFloat a b = 1 \<and> NumericalComparison ParseFloat b a = - 1"
    by (rule n)
  have n2: "ParseFloat ''bad'' = None \<and> ParseFloat ''5'' \<noteq> None \<longrightarrow>
      NumericalComparison ParseFloat ''bad'' ''5'' = 1"
    using n [of "''bad''" "''5''"] by (rule imp_forward) simp_all
  show ?thesis
    by (intro conjI) (rule s t n1 e [THEN conjunct1] c e [THEN conjunct2, THEN conjunct1] p
        e [THEN conjunct2, THEN conjunct2, THEN conjunct1] l
        e [THEN conjunct2, THEN conjunct2, THEN conjunct2] n2 b)+
qed

lemma parse_digits_examples:
  "parse_digits ''10'' = Some (Finite 10)" "parse_digits ''5'' = Some (Finite 5)"
  "parse_digits ''1'' = Some (Finite 1)"
  "parse_digits ''bad'' = None" "parse_digits ''worse'' = None"
  by (simp_all add: parse_digits_def digit_value_def less_eq_char_def)

text \<open>
  With the parser of digit strings: "bad" and "worse" are unparsable as numbers, as
  currency, as percentages and as booleans; "1" is parsable as each of them.
\<close>

theorem comparator_contract_witness:
  "NumericalComparison parse_digits ''10'' ''5'' = 1 \<and>
   NumericalComparison parse_digits ''bad'' ''5'' = 1 \<and>
   NumericalComparison parse_digits ''bad'' ''1'' = 1 \<and>
   NumericalComparison parse_digits ''1'' ''bad'' = - 1 \<and>
   NumericalComparison parse_digits ''bad'' ''worse'' = 0 \<and>
   CurrencyComparison parse_digits ''bad'' ''1'' = 1 \<and>
   CurrencyComparison parse_digits ''1'' ''bad'' = - 1 \<and>
   CurrencyComparison parse_digits ''bad'' ''worse'' = 0 \<and>
   PercentComparison parse_digits ''bad'' ''1'' = 1 \<and>
   PercentComparison parse_digits ''1'' ''bad'' = - 1 \<and>
   PercentComparison parse_digits ''bad'' ''worse'' = 0 \<and>
   BoolComparison ''bad'' ''1'' = - 1 \<and>
   BoolComparison ''1'' ''bad'' = 1 \<and>
   BoolComparison ''bad'' ''worse'' = 0"
proof -
  have cur: "parseCurrencyString parse_digits ''bad'' = None"
    "parseCurrencyString parse_digits ''worse'' = None"
    "parseCurrencyString parse_digits ''1'' \<noteq> None"
    by (simp_all add: parseCurrencyString_def remove_char_def parse_digits_examples)
  have per: "parsePercentString parse_digits ''bad'' = None"
    "parsePercentString parse_digits ''worse'' = None"
    "parsePercentString parse_digits ''1'' \<noteq> None"
    by (simp_all add: parsePercentString_def remove_char_def parse_digits_examples)
  have boo: "ParseBool ''bad'' = None" "ParseBool ''worse'' = None" "ParseBool ''1'' \<noteq> None"
    by (simp_all add: ParseBool_def)
  have num: "parse_digits ''1'' \<noteq> None" "parse_digits ''5'' \<noteq> None"
    by (simp_all add: parse_digits_examples)
  note one = comparator_contract [of parse_digits "''bad''" "''1''"]
  note two = comparator_contract [of parse_digits "''bad''" "''worse''"]
  show ?thesis
    using one two cur per boo num parse_digits_examples(1,2,4,5)
    by blast
qed

section \<open>Adding rows\<close>

lemma length_Split_newline: "length (Split_newline s) = Suc (Count_newline s)"
  by (induction s) (simp_all add: Count_newline_def)

lemma foldl_max_fold: "foldl (\<lambda>m v. max (f v) m) a vs = fold max (map f vs) a"
  by (induction vs arbitrary: a) simp_all

lemma maxNumNewlines_Max:
  "maxNumNewlines Sprint vals = Max (set (0 # map (\<lambda>v. Count_newline (Sprint v)) vals))"
  by (simp only: maxNumNewlines_def foldl_max_fold Max.set_eq_fold)

lemma length_fill_row [simp]: "length (fill_row Sprint C i j vals row) = length row"
  by (induction vals arbitrary: j row) simp_all

lemma fill_row_nth:
  "length row = C \<Longrightarrow> k < C \<Longrightarrow>
   fill_row Sprint C i j vals row ! k =
     (if j \<le> k \<and> k < j + length vals
      then safeOffset (Split_newline (Sprint (vals ! (k - j)))) i else row ! k)"
proof (induction vals arbitrary: j row)
  case Nil
  then show ?case by auto
next
  case (Cons v vals)
  show ?case
  proof (cases "j \<ge> C")
    case True
    with Cons.prems show ?thesis by auto
  next
    case False
    have "fill_row Sprint C i j (v # vals) row ! k =
          fill_row Sprint C i (Suc j) vals (row[j := safeOffset (Split_newline (Sprint v)) i]) ! k"
      using False by simp
    also have "\<dots> = (if Suc j \<le> k \<and> k < Suc j + length vals
        then safeOffset (Split_newline (Sprint (vals ! (k - Suc j)))) i
        else (row[j := safeOffset (Split_newline (Sprint v)) i]) ! k)"
      using Cons.prems by (intro Cons.IH) simp_all
    also have "\<dots> = (if j \<le> k \<and> k < j + length (v # vals)
      then safeOffset (Split_newline (Sprint ((v # vals) ! (k - j)))) i else row ! k)"
      using Cons.prems False by (auto simp: nth_Cons' nth_list_update Suc_diff_le)
    finally show ?thesis .
  qed
qed

lemma fill_row_closed:
  "fill_row Sprint C i 0 vals (replicate C []) =
     map (\<lambda>j. if j < length vals then line i (Sprint (vals ! j)) else []) [0..<C]"
  by (rule nth_equalityI) (simp_all add: fill_row_nth safeOffset_def line_def)

lemma foldl_append_rows:
  "foldl (\<lambda>t i. t\<lparr>rows := rows t @ [f (header t) i]\<rparr>) t is =
     t\<lparr>rows := rows t @ map (f (header t)) is\<rparr>"
  by (induction "is" arbitrary: t) simp_all

lemma AddRowAsArray_closed:
  "AddRowAsArray Sprint t vals =
     t\<lparr>rows := rows t @
          map (\<lambda>i. fill_row Sprint (length (header t)) i 0 vals
                     (replicate (length (header t)) []))
            [0..<Suc (maxNumNewlines Sprint vals)]\<rparr>"
  unfolding AddRowAsArray_def
  by (rule foldl_append_rows
      [of "\<lambda>h i. fill_row Sprint (length h) i 0 vals (replicate (length h) [])"])

text \<open>
  C3.  \<^verbatim>\<open>AddRow\<close> with the values \<open>vals\<close> on a table of \<open>C\<close> columns appends one more
  row than the largest number of line breaks in the string form of a value of the call,
  and changes neither the rows before nor the header.  Appended row \<open>i\<close> has \<open>C\<close>
  cells; cell \<open>j\<close> is line \<open>i\<close> of value \<open>j\<close>, empty when that value has fewer lines or
  when there is no value \<open>j\<close>.  Values at the indices from \<open>C\<close> on are in no row, and
  the call always returns.
\<close>

theorem AddRow_appends:
  "rows (AddRow Sprint t vals) =
     rows t @
     map (\<lambda>i. map (\<lambda>j. if j < length vals then line i (Sprint (vals ! j)) else [])
                [0..<length (header t)])
       [0..<1 + Max (set (0 # map (\<lambda>v. Count_newline (Sprint v)) vals))] \<and>
   header (AddRow Sprint t vals) = header t"
  by (simp only: AddRow_def AddRowAsArray_closed fill_row_closed
      maxNumNewlines_Max [symmetric]) simp

section \<open>Column widths\<close>

lemma int64_id: "- (2 ^ 63) \<le> x \<Longrightarrow> x < 2 ^ 63 \<Longrightarrow> int64 x = x"
  by (simp add: int64_def)

lemma int64_small: "- 1000 \<le> x \<Longrightarrow> x \<le> 1000 \<Longrightarrow> int64 x = x"
  by (simp add: int64_def)

lemma widen_max:
  "i < length ws \<Longrightarrow> widen t ws (i, v) = Return (ws[i := max (ws ! i) (gain t v)])"
  by (simp add: widen_def gain_def Let_def max_def list_update_same_conv)

lemma widen_loop:
  "k + length row \<le> length ws \<Longrightarrow>
   for_each (widen t) (enumerate k row) ws =
     Return (map (\<lambda>i. if k \<le> i \<and> i < k + length row
                       then max (ws ! i) (gain t (row ! (i - k))) else ws ! i)
               [0..<length ws])"
proof (induction row arbitrary: k ws)
  case Nil
  then show ?case by (auto intro!: nth_equalityI)
next
  case (Cons v row)
  let ?ws = "ws[k := max (ws ! k) (gain t v)]"
  have k: "k < length ws" using Cons.prems by simp
  have "for_each (widen t) (enumerate k (v # row)) ws = for_each (widen t) (enumerate (Suc k) row) ?ws"
    using k by (simp add: widen_max)
  also have "\<dots> = Return (map (\<lambda>i. if Suc k \<le> i \<and> i < Suc k + length row
                       then max (?ws ! i) (gain t (row ! (i - Suc k))) else ?ws ! i)
               [0..<length ?ws])"
    using Cons.prems by (intro Cons.IH) simp
  also have "map (\<lambda>i. if Suc k \<le> i \<and> i < Suc k + length row
                       then max (?ws ! i) (gain t (row ! (i - Suc k))) else ?ws ! i)
               [0..<length ?ws] =
     map (\<lambda>i. if k \<le> i \<and> i < k + length (v # row)
                       then max (ws ! i) (gain t ((v # row) ! (i - k))) else ws ! i)
               [0..<length ws]"
    using k by (auto simp: nth_list_update nth_Cons' Suc_diff_le intro!: nth_equalityI)
  finally show ?case .
qed

lemma widen_row_loop:
  "length row \<le> length ws \<Longrightarrow> for_each (widen t) (enumerate 0 row) ws = Return (widen_row t row ws)"
  using widen_loop [of 0 row ws t] by (simp add: widen_row_def)

lemma length_widen_row [simp]: "length (widen_row t r ws) = length ws"
  by (simp add: widen_row_def)

lemma widen_rows_loop:
  "\<forall>r\<in>set rs. length r \<le> length ws \<Longrightarrow>
   for_each (\<lambda>ws row. for_each (widen t) (enumerate 0 row) ws) rs ws =
     Return (fold (widen_row t) rs ws)"
  by (induction rs arbitrary: ws) (simp_all add: widen_row_loop)

lemma length_fold_widen_row [simp]: "length (fold (widen_row t) rs ws) = length ws"
  by (induction rs arbitrary: ws) simp_all

lemma fold_widen_row_nth:
  "j < length ws \<Longrightarrow> fold (widen_row t) rs ws ! j = fold (raise t j) rs (ws ! j)"
  by (induction rs arbitrary: ws) (simp_all add: widen_row_def raise_def)

lemma raise_max: "raise t j r (max m c) = max (raise t j r m) c"
  by (simp add: raise_def max.assoc max.commute max.left_commute)

lemma fold_raise_max: "fold (raise t j) rs (max m c) = max (fold (raise t j) rs m) c"
  by (induction rs arbitrary: m) (simp_all add: raise_max)

lemma raise_spec:
  "\<forall>r\<in>set rs. j < length r \<longrightarrow>
       - (2 ^ 63) \<le> Width t (r ! j) + Padding t \<and> Width t (r ! j) + Padding t < 2 ^ 63 \<Longrightarrow>
   0 \<le> a \<Longrightarrow> max (fold (raise t j) rs m) (a + Padding t) =
         max m (Padding t + fold (\<lambda>r m. max m (cell_metric t r j)) rs a)"
proof (induction rs arbitrary: m a)
  case Nil
  then show ?case by (simp add: add.commute)
next
  case (Cons r rs)
  have rest: "\<forall>r\<in>set rs. j < length r \<longrightarrow>
       - (2 ^ 63) \<le> Width t (r ! j) + Padding t \<and> Width t (r ! j) + Padding t < 2 ^ 63"
    using Cons.prems(1) by simp
  show ?case
  proof (cases "j < length r")
    case True
    let ?w = "Width t (r ! j)"
    have "- (2 ^ 63) \<le> ?w + Padding t" "?w + Padding t < 2 ^ 63"
      using Cons.prems(1) True by simp_all
    then have g: "gain t (r ! j) = ?w + Padding t"
      unfolding gain_def by (rule int64_id)
    have w: "0 \<le> max a ?w" using Cons.prems by simp
    have "max (fold (raise t j) (r # rs) m) (a + Padding t) =
          max (fold (raise t j) rs (max m (?w + Padding t))) (a + Padding t)"
      using True by (simp add: raise_def g)
    also have "\<dots> = max (fold (raise t j) rs m) (max a ?w + Padding t)"
      by (simp add: fold_raise_max max.assoc max.commute)
    also have "\<dots> = max m (Padding t + fold (\<lambda>r m. max m (cell_metric t r j)) rs (max a ?w))"
      by (rule Cons.IH [OF rest w])
    finally show ?thesis using True by (simp add: cell_metric_def)
  next
    case False
    then show ?thesis
      using Cons.IH [OF rest, of a m] Cons.prems by (simp add: raise_def cell_metric_def max_def)
  qed
qed

lemma fold_max_ge: "(a::int) \<le> fold (\<lambda>r m. max m (f r)) rs a"
  by (induction rs arbitrary: a) (auto intro: order_trans [OF max.cobounded1])


lemma widen_stale [simp]: "widen (t\<lparr>widths := w\<rparr>) = widen t"
  by (rule ext)+ (simp add: widen_def)

lemma calculateWidths_closed:
  assumes "list_all (\<lambda>r. length r \<le> length (header t)) (rows t)"
  shows "calculateWidths (t\<lparr>widths := stale\<rparr>) =
     Return (t\<lparr>widths := widen_row t (header t)
                             (fold (widen_row t) (rows t) (replicate (length (header t)) 0))\<rparr>)"
proof -
  have "\<forall>r\<in>set (rows t). length r \<le> length (replicate (length (header t)) (0::int))"
    using assms by (simp add: list_all_iff)
  then show ?thesis
    by (simp add: calculateWidths_def widen_rows_loop widen_row_loop)
qed

lemma cells_in_rangeD:
  assumes "cells_in_range t"
  shows "j < length (header t) \<Longrightarrow>
           0 \<le> Width t (header t ! j) \<and> - (2 ^ 63) \<le> Width t (header t ! j) + Padding t \<and>
           Width t (header t ! j) + Padding t < 2 ^ 63"
    and "\<forall>r\<in>set (rows t). j < length r \<longrightarrow>
           - (2 ^ 63) \<le> Width t (r ! j) + Padding t \<and> Width t (r ! j) + Padding t < 2 ^ 63"
proof -
  have hdr: "\<forall>v\<in>set (header t). 0 \<le> Width t v"
    using assms by (simp add: cells_in_range_def list_all_iff)
  have all: "\<forall>v\<in>set (header t) \<union> \<Union> (set ` set (rows t)).
      - (2 ^ 63) \<le> Width t v + Padding t \<and> Width t v + Padding t < 2 ^ 63"
    using assms by (simp add: cells_in_range_def list_all_iff)
  show "j < length (header t) \<Longrightarrow>
           0 \<le> Width t (header t ! j) \<and> - (2 ^ 63) \<le> Width t (header t ! j) + Padding t \<and>
           Width t (header t ! j) + Padding t < 2 ^ 63"
    using all hdr by (meson UnI1 nth_mem)
  show "\<forall>r\<in>set (rows t). j < length r \<longrightarrow>
           - (2 ^ 63) \<le> Width t (r ! j) + Padding t \<and> Width t (r ! j) + Padding t < 2 ^ 63"
    using all by (meson UN_I UnI2 nth_mem)
qed

lemma computed_width:
  assumes "0 \<le> Padding t" "cells_in_range t" "j < length (header t)"
  shows "widen_row t (header t) (fold (widen_row t) (rows t) (replicate (length (header t)) 0)) ! j
         = spec_width t j"
proof -
  let ?G = "fold (\<lambda>r m. max m (cell_metric t r j)) (rows t) (Width t (header t ! j))"
  have a: "0 \<le> Width t (header t ! j)" "- (2 ^ 63) \<le> Width t (header t ! j) + Padding t"
    "Width t (header t ! j) + Padding t < 2 ^ 63"
    using cells_in_rangeD(1) [OF assms(2,3)] by simp_all
  have g: "gain t (header t ! j) = Width t (header t ! j) + Padding t"
    unfolding gain_def by (rule int64_id [OF a(2,3)])
  have "widen_row t (header t) (fold (widen_row t) (rows t) (replicate (length (header t)) 0)) ! j
        = max (fold (raise t j) (rows t) 0) (Width t (header t ! j) + Padding t)"
    using assms(3) by (simp add: widen_row_def fold_widen_row_nth g)
  also have "\<dots> = max 0 (Padding t + ?G)"
    by (rule raise_spec [OF cells_in_rangeD(2) [OF assms(2)] a(1)])
  also have "\<dots> = Padding t + ?G"
    using assms(1) a(1) fold_max_ge [of "Width t (header t ! j)" "\<lambda>r. cell_metric t r j" "rows t"]
    by simp
  finally show ?thesis by (simp add: spec_width_def)
qed

lemma for_each_invariant:
  assumes "for_each body xs s = Return s'" and "I s"
    and "\<And>s x s'. I s \<Longrightarrow> body s x = Return s' \<Longrightarrow> I s'"
  shows "I s'"
  using assms(1,2)
proof (induction xs arbitrary: s)
  case Nil
  then show ?case by simp
next
  case (Cons x xs)
  from Cons.prems(1) obtain s1 where 1: "body s x = Return s1"
    and 2: "for_each body xs s1 = Return s'"
    by (auto split: run.splits)
  from assms(3) [OF Cons.prems(2) 1] have "I s1" .
  from Cons.IH [OF 2 this] show ?case .
qed

lemma printHeader_widths: "printHeader t f = Return t' \<Longrightarrow> widths t' = widths t"
  by (auto simp: printHeader_def Fprint_def Fprintf_def split: run.splits option.splits)

lemma printHeaderSeparator_widths: "printHeaderSeparator t f = Return t' \<Longrightarrow> widths t' = widths t"
  by (auto simp: printHeaderSeparator_def Let_def Fprint_def Fprintf_def
      split: run.splits option.splits)

lemma printRow_widths: "printRow t f row alt = Return t' \<Longrightarrow> widths t' = widths t"
  by (auto simp: printRow_def Let_def Fprint_def Fprintf_def split: run.splits option.splits)

lemma Print_widths:
  assumes "Print t = Return t'" and "calculateWidths t = Return t1"
  shows "widths t' = widths t1"
proof -
  let ?format = "concat (replicate (length (header t)) ''%s'') @ [newline]"
  from assms obtain t3 where
    hdr: "(if PrintHeaders t1
           then (case printHeader t1 ?format of
                   Panic p \<Rightarrow> Panic p
                 | Return t2 \<Rightarrow> if HeaderSeparatorRune t2 \<noteq> 0
                                then printHeaderSeparator t2 ?format else Return t2)
           else Return t1) = Return t3"
    and body: "for_each (\<lambda>t ir. case ir of (i, row) \<Rightarrow> printRow t ?format row (i mod 2 = 1))
                 (enumerate 0 (rows t3)) t3 = Return t'"
    by (auto simp: Print_def Let_def split: run.splits)
  have 3: "widths t3 = widths t1"
    using hdr
    by (auto split: if_splits run.splits dest!: printHeader_widths printHeaderSeparator_widths)
  have "widths t' = widths t1"
    by (rule for_each_invariant [OF body, of "\<lambda>s. widths s = widths t1"])
       (auto simp: 3 dest: printRow_widths)
  then show ?thesis .
qed

text \<open>
  The claim as worded, for every table, fails in two ways.  With a metric that is \<open>- 5\<close>
  for every string (set by \<^verbatim>\<open>WithWidthFunc\<close>) the sum of the metric and the padding 2
  never exceeds the initial width 0, so the column has the width 0 and not \<open>2 + - 5\<close>.
  With the padding \<open>2 ^ 63 - 1\<close> (set by \<^verbatim>\<open>WithPadding\<close>) the sum of the metric 2 of
  the header cell and the padding wraps around to a negative machine integer, and the
  column has the width 0 again, not \<open>2 ^ 63 + 1\<close>.
\<close>

theorem column_widths_counterexample:
  "calculateWidths below_zero = Return (below_zero\<lparr>widths := [0]\<rparr>) \<and>
   spec_width below_zero 0 = - 3 \<and>
   calculateWidths widest = Return (widest\<lparr>widths := [0]\<rparr>) \<and>
   spec_width widest 0 = 2 ^ 63 + 1"
  by (simp add: below_zero_def widest_def plain_def WithWidthFunc_def WithPadding_def
      calculateWidths_def widen_def spec_width_def int64_def Let_def)

text \<open>
  C1.  On every render the width of column \<open>j\<close> is the padding plus the largest metric
  among the header cell and the cells of the rows in column \<open>j\<close>, a row without a cell
  \<open>j\<close> counting as \<open>0\<close>.  This holds for a well-formed table in which the metric of
  every header cell is not negative and the sum of the padding and the metric of any cell
  is a machine integer, whatever widths \<open>stale\<close> an earlier render has left in the
  table: \<^verbatim>\<open>calculateWidths\<close> starts from zeros and looks at the header and the rows
  only, and the rest of \<^verbatim>\<open>Print\<close> leaves the widths as computed.
\<close>

theorem column_widths:
  assumes "well_formed t" and "cells_in_range t"
  shows "calculateWidths (t\<lparr>widths := stale\<rparr>) =
           Return (t\<lparr>widths := map (spec_width t) [0..<length (header t)]\<rparr>) \<and>
         (Print (t\<lparr>widths := stale\<rparr>) = Return t' \<longrightarrow>
            widths t' = map (spec_width t) [0..<length (header t)])"
proof -
  have eq: "widen_row t (header t) (fold (widen_row t) (rows t) (replicate (length (header t)) 0))
        = map (spec_width t) [0..<length (header t)]"
    using assms by (intro nth_equalityI) (simp_all add: computed_width well_formed_def)
  have c: "calculateWidths (t\<lparr>widths := stale\<rparr>) =
           Return (t\<lparr>widths := map (spec_width t) [0..<length (header t)]\<rparr>)"
    using assms(1) by (simp add: calculateWidths_closed well_formed_def eq)
  have "Print (t\<lparr>widths := stale\<rparr>) = Return t' \<longrightarrow>
           widths t' = map (spec_width t) [0..<length (header t)]"
    using Print_widths [OF _ c] by simp
  with c show ?thesis by simp
qed

text \<open>
  The table of two columns with two rows of one cell, a metric that counts bytes and the
  padding 2: both columns get the width 3, the second one from its header alone.
\<close>

theorem column_widths_witness:
  "well_formed two_short \<and> cells_in_range two_short \<and>
   calculateWidths (two_short\<lparr>widths := [9, 9]\<rparr>) = Return (two_short\<lparr>widths := [3, 3]\<rparr>)"
proof -
  have wf: "well_formed two_short"
    by (simp add: well_formed_def two_short_def plain_def SetRows_def)
  have nn: "cells_in_range two_short"
    by (simp add: cells_in_range_def two_short_def plain_def SetRows_def)
  have "map (spec_width two_short) [0..<length (header two_short)] = [3, 3]"
    by (simp add: header_two_short spec_width_def rows_two_short cell_metric_def upt_rec)
       (simp add: two_short_def plain_def SetRows_def)
  with column_widths [OF wf nn, of "[9, 9]"] wf nn show ?thesis
    by simp
qed

section \<open>Rendering twice\<close>

lemma lenOffset_Writer [simp]: "lenOffset (t\<lparr>Writer := s\<rparr>) = lenOffset t"
  by (rule ext)+ (simp add: lenOffset_def)

lemma applyWidths_Writer [simp]: "applyWidths (t\<lparr>Writer := s\<rparr>) = applyWidths t"
  by (rule ext)+ (simp add: applyWidths_def cong del: if_weak_cong)

lemma separator_cell_Writer [simp]: "separator_cell (t\<lparr>Writer := s\<rparr>) = separator_cell t"
  by (rule ext)+ (simp add: separator_cell_def Let_def)

lemma widen_Writer [simp]: "widen (t\<lparr>Writer := s\<rparr>) = widen t"
  by (rule ext)+ (simp add: widen_def)

lemma printHeader_frame:
  "printHeader t f = Return t' \<Longrightarrow>
     \<exists>out. \<forall>s. printHeader (t\<lparr>Writer := s\<rparr>) f = Return (t\<lparr>Writer := s @ out\<rparr>)"
  by (auto simp: printHeader_def Fprint_def Fprintf_def split: run.splits option.splits)

lemma printHeaderSeparator_frame:
  "printHeaderSeparator t f = Return t' \<Longrightarrow>
     \<exists>out. \<forall>s. printHeaderSeparator (t\<lparr>Writer := s\<rparr>) f = Return (t\<lparr>Writer := s @ out\<rparr>)"
  by (auto simp: printHeaderSeparator_def Let_def Fprint_def Fprintf_def
      split: run.splits option.splits)

lemma printRow_frame:
  assumes "printRow t f row alt = Return t'"
  shows "\<exists>out. \<forall>s. printRow (t\<lparr>Writer := s\<rparr>) f row alt = Return (t\<lparr>Writer := s @ out\<rparr>)"
proof -
  from assms obtain vals where vals: "applyWidths t row (widths t) = Return vals"
    by (auto simp: printRow_def split: run.splits)
  with assms obtain vals1 where vals1:
    "(case FirstColumnFormatter t of
        None \<Rightarrow> Return vals
      | Some f \<Rightarrow> (case vals of [] \<Rightarrow> Panic IndexOutOfRange
                   | v # vs \<Rightarrow> Return (f ''%s'' [v] # vs))) = Return vals1"
    by (auto simp: printRow_def split: run.splits)
  define vals2 where "vals2 =
    (case StandoutFormatter t of
       Some f \<Rightarrow> if alt then map (\<lambda>v. f ''%s'' [v]) vals1 else vals1
     | None \<Rightarrow> vals1)"
  have "\<forall>s. printRow (t\<lparr>Writer := s\<rparr>) f row alt =
          Return (t\<lparr>Writer := s @ Sprintf f vals2\<rparr>)"
    by (simp add: printRow_def vals vals1 vals2_def Fprintf_def Fprint_def)
  then show ?thesis by blast
qed

lemma frame_self:
  assumes "\<forall>s. g (t\<lparr>Writer := s\<rparr>) = Return (t\<lparr>Writer := s @ out\<rparr>)"
  shows "g t = Return (t\<lparr>Writer := Writer t @ out\<rparr>)"
  using assms [rule_format, of "Writer t"] by simp

lemma for_each_frame:
  assumes body: "\<And>t x t'. body t x = Return t' \<Longrightarrow>
      \<exists>out. \<forall>s. body (t\<lparr>Writer := s\<rparr>) x = Return (t\<lparr>Writer := s @ out\<rparr>)"
  shows "for_each body xs t = Return t' \<Longrightarrow>
     \<exists>out. \<forall>s. for_each body xs (t\<lparr>Writer := s\<rparr>) = Return (t\<lparr>Writer := s @ out\<rparr>)"
proof (induction xs arbitrary: t)
  case Nil
  have "\<forall>s. for_each body [] (t\<lparr>Writer := s\<rparr>) = Return (t\<lparr>Writer := s @ []\<rparr>)"
    by simp
  then show ?case by blast
next
  case (Cons x xs)
  from Cons.prems obtain t1 where 1: "body t x = Return t1"
    and 2: "for_each body xs t1 = Return t'"
    by (auto split: run.splits)
  from body [OF 1] obtain o1 where
    o1: "\<forall>s. body (t\<lparr>Writer := s\<rparr>) x = Return (t\<lparr>Writer := s @ o1\<rparr>)"
    by blast
  have t1: "t1 = t\<lparr>Writer := Writer t @ o1\<rparr>"
    using frame_self [of "\<lambda>t. body t x", OF o1] 1 by simp
  from Cons.IH [OF 2] obtain o2 where
    o2: "\<forall>s. for_each body xs (t1\<lparr>Writer := s\<rparr>) = Return (t1\<lparr>Writer := s @ o2\<rparr>)"
    by blast
  have "\<forall>s. for_each body (x # xs) (t\<lparr>Writer := s\<rparr>) = Return (t\<lparr>Writer := s @ (o1 @ o2)\<rparr>)"
  proof
    fix s
    have "for_each body (x # xs) (t\<lparr>Writer := s\<rparr>) = for_each body xs (t\<lparr>Writer := s @ o1\<rparr>)"
      using o1 by simp
    also have "t\<lparr>Writer := s @ o1\<rparr> = t1\<lparr>Writer := s @ o1\<rparr>"
      by (simp add: t1)
    also have "for_each body xs (t1\<lparr>Writer := s @ o1\<rparr>) = Return (t1\<lparr>Writer := (s @ o1) @ o2\<rparr>)"
      using o2 by blast
    also have "t1\<lparr>Writer := (s @ o1) @ o2\<rparr> = t\<lparr>Writer := s @ (o1 @ o2)\<rparr>"
      by (simp add: t1)
    finally show "for_each body (x # xs) (t\<lparr>Writer := s\<rparr>) = Return (t\<lparr>Writer := s @ (o1 @ o2)\<rparr>)" .
  qed
  then show ?case by blast
qed


lemma seq_frame:
  assumes 1: "g1 t = Return t1"
    and f1: "\<exists>out. \<forall>s. g1 (t\<lparr>Writer := s\<rparr>) = Return (t\<lparr>Writer := s @ out\<rparr>)"
    and f2: "\<exists>out. \<forall>s. g2 (t1\<lparr>Writer := s\<rparr>) = Return (t1\<lparr>Writer := s @ out\<rparr>)"
  shows "\<exists>out. \<forall>s. (case g1 (t\<lparr>Writer := s\<rparr>) of Panic p \<Rightarrow> Panic p | Return u \<Rightarrow> g2 u) =
           Return (t\<lparr>Writer := s @ out\<rparr>)"
proof -
  from f1 obtain o1 where o1: "\<forall>s. g1 (t\<lparr>Writer := s\<rparr>) = Return (t\<lparr>Writer := s @ o1\<rparr>)"
    by blast
  from f2 obtain o2 where o2: "\<forall>s. g2 (t1\<lparr>Writer := s\<rparr>) = Return (t1\<lparr>Writer := s @ o2\<rparr>)"
    by blast
  have t1: "t1 = t\<lparr>Writer := Writer t @ o1\<rparr>"
    using frame_self [of g1, OF o1] 1 by simp
  have "\<forall>s. (case g1 (t\<lparr>Writer := s\<rparr>) of Panic p \<Rightarrow> Panic p | Return u \<Rightarrow> g2 u) =
           Return (t\<lparr>Writer := s @ (o1 @ o2)\<rparr>)"
  proof
    fix s
    have "(case g1 (t\<lparr>Writer := s\<rparr>) of Panic p \<Rightarrow> Panic p | Return u \<Rightarrow> g2 u) =
          g2 (t\<lparr>Writer := s @ o1\<rparr>)"
      using o1 by simp
    also have "t\<lparr>Writer := s @ o1\<rparr> = t1\<lparr>Writer := s @ o1\<rparr>"
      by (simp add: t1)
    also have "g2 (t1\<lparr>Writer := s @ o1\<rparr>) = Return (t1\<lparr>Writer := (s @ o1) @ o2\<rparr>)"
      using o2 by blast
    also have "t1\<lparr>Writer := (s @ o1) @ o2\<rparr> = t\<lparr>Writer := s @ (o1 @ o2)\<rparr>"
      by (simp add: t1)
    finally show "(case g1 (t\<lparr>Writer := s\<rparr>) of Panic p \<Rightarrow> Panic p | Return u \<Rightarrow> g2 u) =
           Return (t\<lparr>Writer := s @ (o1 @ o2)\<rparr>)" .
  qed
  then show ?thesis by blast
qed

lemma calculateWidths_frame:
  assumes "calculateWidths t = Return t1"
  shows "\<exists>ws. t1 = t\<lparr>widths := ws\<rparr> \<and>
     (\<forall>s w. calculateWidths (t\<lparr>widths := w, Writer := s\<rparr>) = Return (t\<lparr>widths := ws, Writer := s\<rparr>))"
  using assms by (auto simp: calculateWidths_def split: run.splits)

text \<open>
  \<^verbatim>\<open>Print\<close> changes the widths and appends to the writer; on the table it leaves, it
  appends the same text again.
\<close>

lemma Print_frame:
  assumes "Print t = Return t'"
  shows "\<exists>ws out. t' = t\<lparr>widths := ws, Writer := Writer t @ out\<rparr> \<and>
           Print t' = Return (t'\<lparr>Writer := Writer t' @ out\<rparr>)"
proof -
  define format where "format = concat (replicate (length (header t)) ''%s'') @ [newline]"
  define sep where "sep u = (if HeaderSeparatorRune u \<noteq> 0
      then printHeaderSeparator u format else Return u)" for u
  define hp where "hp u = (if PrintHeaders u
      then (case printHeader u format of Panic p \<Rightarrow> Panic p | Return t2 \<Rightarrow> sep t2)
      else Return u)" for u
  define body where
    "body = (\<lambda>u ir. case ir of (i :: nat, row) \<Rightarrow> printRow u format row (i mod 2 = 1))"
  define loop where "loop u = for_each body (enumerate 0 (rows u)) u" for u
  define tail where "tail u = (case hp u of Panic p \<Rightarrow> Panic p | Return t3 \<Rightarrow> loop t3)" for u
  have Print_eq: "Print u = (case calculateWidths u of Panic p \<Rightarrow> Panic p | Return t1 \<Rightarrow> tail t1)"
    if "header u = header t" for u
    using that
    by (simp add: Print_def Let_def tail_def hp_def sep_def loop_def body_def format_def
        cong: run.case_cong if_cong)
  from assms obtain t1 where cw: "calculateWidths t = Return t1" and tl: "tail t1 = Return t'"
    by (auto simp: Print_eq split: run.splits)
  from calculateWidths_frame [OF cw] obtain ws where t1: "t1 = t\<lparr>widths := ws\<rparr>"
    and cw': "\<forall>s w. calculateWidths (t\<lparr>widths := w, Writer := s\<rparr>) = Return (t\<lparr>widths := ws, Writer := s\<rparr>)"
    by blast
  from tl obtain t3 where hp3: "hp t1 = Return t3" and lp: "loop t3 = Return t'"
    by (auto simp: tail_def split: run.splits)
  have body_frame: "\<And>u x u'. body u x = Return u' \<Longrightarrow>
      \<exists>out. \<forall>s. body (u\<lparr>Writer := s\<rparr>) x = Return (u\<lparr>Writer := s @ out\<rparr>)"
    by (auto simp: body_def dest: printRow_frame)
  have loop_frame: "\<exists>out. \<forall>s. loop (t3\<lparr>Writer := s\<rparr>) = Return (t3\<lparr>Writer := s @ out\<rparr>)"
    using for_each_frame [of body "enumerate 0 (rows t3)" t3 t', OF body_frame] lp
    by (simp add: loop_def)
  have hp_frame: "\<exists>out. \<forall>s. hp (t1\<lparr>Writer := s\<rparr>) = Return (t1\<lparr>Writer := s @ out\<rparr>)"
  proof (cases "PrintHeaders t1")
    case False
    then have "\<forall>s. hp (t1\<lparr>Writer := s\<rparr>) = Return (t1\<lparr>Writer := s @ []\<rparr>)"
      by (simp add: hp_def)
    then show ?thesis by blast
  next
    case True
    with hp3 obtain t2 where ph: "printHeader t1 format = Return t2" and sp: "sep t2 = Return t3"
      by (auto simp: hp_def split: run.splits)
    have sep_frame: "\<exists>out. \<forall>s. sep (t2\<lparr>Writer := s\<rparr>) = Return (t2\<lparr>Writer := s @ out\<rparr>)"
    proof (cases "HeaderSeparatorRune t2 \<noteq> 0")
      case True
      with sp have "printHeaderSeparator t2 format = Return t3"
        by (simp add: sep_def)
      from printHeaderSeparator_frame [OF this] True show ?thesis
        by (simp add: sep_def)
    next
      case False
      then have "\<forall>s. sep (t2\<lparr>Writer := s\<rparr>) = Return (t2\<lparr>Writer := s @ []\<rparr>)"
        by (simp add: sep_def)
      then show ?thesis by blast
    qed
    from seq_frame [of "\<lambda>u. printHeader u format" t1 t2 sep, OF ph printHeader_frame [OF ph] sep_frame]
    show ?thesis using True by (simp add: hp_def)
  qed
  from seq_frame [of hp t1 t3 loop, OF hp3 hp_frame loop_frame]
  obtain out where out: "\<forall>s. tail (t1\<lparr>Writer := s\<rparr>) = Return (t1\<lparr>Writer := s @ out\<rparr>)"
    by (auto simp: tail_def)
  have t': "t' = t1\<lparr>Writer := Writer t1 @ out\<rparr>"
    using frame_self [of tail, OF out] tl by simp
  have w: "t' = t\<lparr>widths := ws, Writer := Writer t @ out\<rparr>"
    by (simp add: t' t1)
  have "calculateWidths (t\<lparr>widths := ws, Writer := Writer t @ out\<rparr>) =
        Return (t\<lparr>widths := ws, Writer := Writer t @ out\<rparr>)"
    using cw' by blast
  then have "calculateWidths t' = Return t'"
    by (simp add: t' t1)
  moreover have "header t' = header t"
    by (simp add: t' t1)
  ultimately have p: "Print t' = tail t'"
    by (simp add: Print_eq)
  have "tail (t1\<lparr>Writer := Writer t @ out\<rparr>) = Return (t1\<lparr>Writer := (Writer t @ out) @ out\<rparr>)"
    using out by blast
  moreover have "t1\<lparr>Writer := Writer t @ out\<rparr> = t'"
    by (simp add: t' t1)
  moreover have "t1\<lparr>Writer := (Writer t @ out) @ out\<rparr> = t'\<lparr>Writer := Writer t' @ out\<rparr>"
    by (simp add: t' t1)
  ultimately have "tail t' = Return (t'\<lparr>Writer := Writer t' @ out\<rparr>)"
    by simp
  with p have "Print t' = Return (t'\<lparr>Writer := Writer t' @ out\<rparr>)"
    by simp
  with w show ?thesis by blast
qed


text \<open>
  C9.  When \<^verbatim>\<open>Print\<close> returns, it has appended some text \<open>out\<close> to the writer, and
  a second \<^verbatim>\<open>Print\<close> on the table as the first one left it returns as well, appends
  the same text \<open>out\<close> and changes nothing else.
\<close>

theorem Print_twice:
  assumes "Print t = Return t'"
  shows "\<exists>out. Writer t' = Writer t @ out \<and> Print t' = Return (t'\<lparr>Writer := Writer t' @ out\<rparr>)"
proof -
  from Print_frame [OF assms] obtain ws out where
    "t' = t\<lparr>widths := ws, Writer := Writer t @ out\<rparr>"
    and again: "Print t' = Return (t'\<lparr>Writer := Writer t' @ out\<rparr>)"
    by blast
  then have "Writer t' = Writer t @ out"
    by simp
  with again show ?thesis by blast
qed

lemma report_fields:
  "report = \<lparr>FirstColumnFormatter = None, HeaderFormatter = None, StandoutFormatter = None,
      Padding = 2, Writer = [], Width = (\<lambda>s. int (length s)), HeaderSeparatorRune = 45,
      PrintHeaders = True, header = [''ID'', ''Name''], rows = [[''1'', ''Foobar''], [''2'']],
      widths = []\<rparr>"
  by (simp add: report_def plain_def SetRows_def WithHeaderSeparatorRow_def)

lemma encode_minus: "EncodeRune 45 = ''-''"
  by code_simp

lemma Print_report:
  "Print report = Return (report\<lparr>widths := [4, 8], Writer := report_text\<rparr>)"
  by (simp add: report_fields report_text_def Print_def calculateWidths_def widen_def
      printHeader_def printHeaderSeparator_def separator_cell_def printRow_def applyWidths_def
      lenOffset_def Fprintf_def Fprint_def encode_minus signed_divide_int_def Let_def
      int64_small eval_nat_numeral)

text \<open>
  The first render of the example table writes the header, the separator and two rows
  to the empty writer; the second render writes the same four lines again.
\<close>

theorem Print_twice_witness:
  "Print report = Return (report\<lparr>widths := [4, 8], Writer := report_text\<rparr>) \<and>
   Print (report\<lparr>widths := [4, 8], Writer := report_text\<rparr>) =
     Return (report\<lparr>widths := [4, 8], Writer := report_text @ report_text\<rparr>)"
proof -
  from Print_twice [OF Print_report] obtain out where
    out: "Writer (report\<lparr>widths := [4, 8], Writer := report_text\<rparr>) = Writer report @ out"
    and again: "Print (report\<lparr>widths := [4, 8], Writer := report_text\<rparr>) =
      Return (report\<lparr>widths := [4, 8], Writer := report_text,
                Writer := Writer (report\<lparr>widths := [4, 8], Writer := report_text\<rparr>) @ out\<rparr>)"
    by auto
  have "Writer report = []"
    by (simp add: report_fields)
  with out have "out = report_text"
    by simp
  with again Print_report show ?thesis
    by simp
qed

section \<open>JSON export\<close>

lemma map_of_foldl_update:
  "map_of (foldl (\<lambda>m kv. case kv of (k, v) \<Rightarrow> AList.update k v m) m0 kvs) =
     map_of m0 ++ map_of (rev kvs)"
  by (induction kvs arbitrary: m0) (auto simp: update_conv' map_add_def fun_eq_iff split: option.splits)

lemma distinct_foldl_update:
  "distinct (map fst m0) \<Longrightarrow>
   distinct (map fst (foldl (\<lambda>m kv. case kv of (k, v) \<Rightarrow> AList.update k v m) m0 kvs))"
  by (induction kvs arbitrary: m0) (auto simp: distinct_update)

lemma rowMap_of_foldl:
  "rowMap_of hdr row =
     foldl (\<lambda>m kv. case kv of (k, v) \<Rightarrow> AList.update k v m) []
       (zip hdr (map (cell row) [0..<length hdr]))"
proof -
  have "foldl (\<lambda>rowMap ic. case ic of (i, col) \<Rightarrow>
              if i < length row then AList.update col (row ! i) rowMap
              else AList.update col [] rowMap) m (enumerate n hdr) =
        foldl (\<lambda>m kv. case kv of (k, v) \<Rightarrow> AList.update k v m) m
          (zip hdr (map (cell row) [n..<n + length hdr]))" for m n
  proof (induction hdr arbitrary: m n)
    case Nil
    then show ?case by simp
  next
    case (Cons h hdr)
    have "[n..<n + length (h # hdr)] = n # [Suc n..<Suc n + length hdr]"
      by (simp add: upt_rec)
    then show ?case
      using Cons.IH [of _ "Suc n"] by (simp add: cell_def)
  qed
  from this [of "[]" 0] show ?thesis
    by (simp add: rowMap_of_def)
qed

lemma rowMap_of_map:
  "map_of (rowMap_of hdr row) = map_of (rev (zip hdr (map (cell row) [0..<length hdr])))"
  "distinct (map fst (rowMap_of hdr row))"
  by (simp_all add: rowMap_of_foldl map_of_foldl_update distinct_foldl_update)

lemma populate_short:
  "\<exists>r\<in>set rs. length r \<le> k \<Longrightarrow> populate hdr k rs data = Inl KeyColumnOutOfRangeInRow"
  by (induction rs arbitrary: data) auto

lemma populate_full:
  "\<forall>r\<in>set rs. k < length r \<Longrightarrow>
   populate hdr k rs data =
     Inr (foldl (\<lambda>m kv. case kv of (k, v) \<Rightarrow> AList.update k v m) data
            (map (\<lambda>r. (r ! k, rowMap_of hdr r)) rs))"
  by (induction rs arbitrary: data) auto


lemma ids_fields: "header ids = [''ID'', ''Name'']" "rows ids = [[''1'', ''Foo''], [''2'', ''Bar'']]"
  by (simp_all add: ids_def plain_def SetRows_def)

lemma ids_data:
  "populate (header ids) 0 (rows ids) [] =
     Inr [(''1'', [(''ID'', ''1''), (''Name'', ''Foo'')]), (''2'', [(''ID'', ''2''), (''Name'', ''Bar'')])]"
  by (simp add: ids_fields rowMap_of_def AList.update.simps)

lemma ids_marshal:
  assumes "list_all (\<lambda>s. enc s = quoted s) [''ID'', ''Name'', ''1'', ''2'', ''Foo'', ''Bar'']"
  shows "Marshal enc [(''1'', [(''ID'', ''1''), (''Name'', ''Foo'')]),
                      (''2'', [(''ID'', ''2''), (''Name'', ''Bar'')])] = ids_json"
  using assms
  by (simp add: Marshal_def marshal_object_def quoted_def ids_json_def less_eq_char_def)

text \<open>
  C7.  \<^verbatim>\<open>ExportJSON\<close> returns the error "invalid keyColumn index" for a key column
  below \<open>0\<close> or not below the number of columns; otherwise, when some row is shorter
  than \<open>keyColumn + 1\<close>, it returns the error "keyColumn index out of range in row";
  in both cases nothing is written.  Otherwise it returns \<^verbatim>\<open>nil\<close> and writes one JSON
  object for a map \<open>data\<close> that holds, for each row, its key cell as the key and the
  map of the row as the value.  \<open>map_of (rev ps)\<close> gives a key the value of the last pair
  of \<open>ps\<close> with that key: a later row replaces an earlier row with the same key, and the
  map of a row gives a header name the cell of that column, the empty string for a cell
  that the row does not have.  For the example table, the key column 0 and an encoder
  that puts its six strings in quotation marks, the text written is the one of the
  specification.
\<close>

theorem ExportJSON_spec:
  "((k < 0 \<or> int (length (header t)) \<le> k) \<longrightarrow>
      ExportJSON enc t k = (InvalidKeyColumnIndex, t)) \<and>
   (0 \<le> k \<and> k < int (length (header t)) \<and> (\<exists>r\<in>set (rows t). length r < nat k + 1) \<longrightarrow>
      ExportJSON enc t k = (KeyColumnOutOfRangeInRow, t)) \<and>
   (0 \<le> k \<and> k < int (length (header t)) \<and> (\<forall>r\<in>set (rows t). nat k + 1 \<le> length r) \<longrightarrow>
      (\<exists>data. ExportJSON enc t k = (nil, t\<lparr>Writer := Writer t @ Marshal enc data\<rparr>) \<and>
         distinct (map fst data) \<and>
         map_of data = map_of (rev (map (\<lambda>r. (r ! nat k, rowMap_of (header t) r)) (rows t))))) \<and>
   (distinct (map fst (rowMap_of (header t) r)) \<and>
    map_of (rowMap_of (header t) r) =
      map_of (rev (zip (header t) (map (cell r) [0..<length (header t)])))) \<and>
   (list_all (\<lambda>s. enc s = quoted s) [''ID'', ''Name'', ''1'', ''2'', ''Foo'', ''Bar''] \<longrightarrow>
      ExportJSON enc ids 0 = (nil, ids\<lparr>Writer := Writer ids @ ids_json\<rparr>))"
proof (intro conjI impI)
  assume "k < 0 \<or> int (length (header t)) \<le> k"
  then show "ExportJSON enc t k = (InvalidKeyColumnIndex, t)"
    by (auto simp: ExportJSON_def)
next
  assume a: "0 \<le> k \<and> k < int (length (header t)) \<and> (\<exists>r\<in>set (rows t). length r < nat k + 1)"
  then have "\<exists>r\<in>set (rows t). length r \<le> nat k"
    by (auto simp: less_Suc_eq_le)
  from populate_short [OF this] a show "ExportJSON enc t k = (KeyColumnOutOfRangeInRow, t)"
    by (simp add: ExportJSON_def)
next
  assume a: "0 \<le> k \<and> k < int (length (header t)) \<and> (\<forall>r\<in>set (rows t). nat k + 1 \<le> length r)"
  let ?data = "foldl (\<lambda>m kv. case kv of (k, v) \<Rightarrow> AList.update k v m) []
                 (map (\<lambda>r. (r ! nat k, rowMap_of (header t) r)) (rows t))"
  from a have "\<forall>r\<in>set (rows t). nat k < length r"
    by (auto simp: Suc_le_eq)
  from populate_full [OF this] a
  have "ExportJSON enc t k = (nil, t\<lparr>Writer := Writer t @ Marshal enc ?data\<rparr>)"
    by (simp add: ExportJSON_def)
  moreover have "distinct (map fst ?data)"
    by (simp add: distinct_foldl_update)
  moreover have "map_of ?data =
      map_of (rev (map (\<lambda>r. (r ! nat k, rowMap_of (header t) r)) (rows t)))"
    by (simp add: map_of_foldl_update)
  ultimately show "\<exists>data. ExportJSON enc t k = (nil, t\<lparr>Writer := Writer t @ Marshal enc data\<rparr>) \<and>
         distinct (map fst data) \<and>
         map_of data = map_of (rev (map (\<lambda>r. (r ! nat k, rowMap_of (header t) r)) (rows t)))"
    by blast
next
  show "distinct (map fst (rowMap_of (header t) r))"
    by (rule rowMap_of_map)
next
  show "map_of (rowMap_of (header t) r) =
      map_of (rev (zip (header t) (map (cell r) [0..<length (header t)])))"
    by (rule rowMap_of_map)
next
  assume "list_all (\<lambda>s. enc s = quoted s) [''ID'', ''Name'', ''1'', ''2'', ''Foo'', ''Bar'']"
  from ids_marshal [OF this] show "ExportJSON enc ids 0 = (nil, ids\<lparr>Writer := Writer ids @ ids_json\<rparr>)"
    by (simp add: ExportJSON_def ids_data) (simp add: ids_fields)
qed

lemma twins_fields:
  "header twins = [''ID'', ''Name'']" "rows twins = [[''1'', ''Foo''], [''1'', ''Bar'']]"
  by (simp_all add: twins_def plain_def SetRows_def)

lemma report_header_rows:
  "header report = [''ID'', ''Name'']" "rows report = [[''1'', ''Foobar''], [''2'']]"
  by (simp_all add: report_fields)

text \<open>
  The key column 2 of two columns; the key column 1 with a row of one cell; the example
  of the specification; and two rows with the key \<^verbatim>\<open>1\<close>, of which the second one is
  written.
\<close>

theorem ExportJSON_spec_witness:
  "ExportJSON quoted ids 2 = (InvalidKeyColumnIndex, ids) \<and>
   ExportJSON quoted report 1 = (KeyColumnOutOfRangeInRow, report) \<and>
   ExportJSON quoted ids 0 = (nil, ids\<lparr>Writer := Writer ids @ ids_json\<rparr>) \<and>
   (\<exists>data. ExportJSON quoted twins 0 = (nil, twins\<lparr>Writer := Writer twins @ Marshal quoted data\<rparr>) \<and>
      distinct (map fst data) \<and>
      map_of data ''1'' = Some (rowMap_of (header twins) [''1'', ''Bar''])) \<and>
   ExportJSON quoted twins 0 = (nil, twins\<lparr>Writer := Writer twins @ twins_json\<rparr>)"
proof -
  have 1: "ExportJSON quoted ids 2 = (InvalidKeyColumnIndex, ids)"
    using ExportJSON_spec [of 2 ids quoted "[]"] by (simp add: ids_fields)
  have 2: "ExportJSON quoted report 1 = (KeyColumnOutOfRangeInRow, report)"
    using ExportJSON_spec [of 1 report quoted "[]"] by (simp add: report_header_rows)
  have 3: "ExportJSON quoted ids 0 = (nil, ids\<lparr>Writer := Writer ids @ ids_json\<rparr>)"
    using ExportJSON_spec [of 0 ids quoted "[]"] by simp
  have 4: "\<exists>data. ExportJSON quoted twins 0 =
        (nil, twins\<lparr>Writer := Writer twins @ Marshal quoted data\<rparr>) \<and>
      distinct (map fst data) \<and>
      map_of data ''1'' = Some (rowMap_of (header twins) [''1'', ''Bar''])"
    using ExportJSON_spec [of 0 twins quoted "[]"] by (auto simp: twins_fields)
  have 5: "ExportJSON quoted twins 0 = (nil, twins\<lparr>Writer := Writer twins @ twins_json\<rparr>)"
    by (simp add: ExportJSON_def twins_fields rowMap_of_def AList.update.simps Marshal_def
        marshal_object_def quoted_def twins_json_def)
  from 1 2 3 4 5 show ?thesis by blast
qed

section \<open>Transposing\<close>

lemma header_cells_loop:
  "\<forall>r\<in>set rs. r \<noteq> [] \<Longrightarrow>
   for_each (\<lambda>newHeader row. case first_cell row of Panic p \<Rightarrow> Panic p
                                | Return c \<Rightarrow> Return (newHeader @ [c])) rs acc =
     Return (acc @ map hd rs)"
  by (induction rs arbitrary: acc) (auto simp: first_cell_def split: list.splits)

lemma header_cells_panic:
  "\<exists>r\<in>set rs. r = [] \<Longrightarrow>
   for_each (\<lambda>newHeader row. case first_cell row of Panic p \<Rightarrow> Panic p
                                | Return c \<Rightarrow> Return (newHeader @ [c])) rs acc =
     Panic IndexOutOfRange"
  by (induction rs arbitrary: acc) (auto simp: first_cell_def split: list.splits)

lemma fill_cells:
  "length l = Suc (k + length rs) \<Longrightarrow>
   foldl (\<lambda>l jr. case jr of (j, row) \<Rightarrow> l[j + 1 := g row]) l (enumerate k rs) =
     take (Suc k) l @ map g rs"
proof (induction rs arbitrary: l k)
  case Nil
  then show ?case by simp
next
  case (Cons r rs)
  have "foldl (\<lambda>l jr. case jr of (j, row) \<Rightarrow> l[j + 1 := g row]) l (enumerate k (r # rs)) =
        foldl (\<lambda>l jr. case jr of (j, row) \<Rightarrow> l[j + 1 := g row]) (l[Suc k := g r]) (enumerate (Suc k) rs)"
    by simp
  also have "\<dots> = take (Suc (Suc k)) (l[Suc k := g r]) @ map g rs"
    using Cons.prems by (intro Cons.IH) simp
  also have "take (Suc (Suc k)) (l[Suc k := g r]) = take (Suc k) l @ [g r]"
    using Cons.prems by (simp add: take_Suc_conv_app_nth)
  finally show ?case by simp
qed

lemma fill_in_row:
  "i < length nr \<Longrightarrow>
   foldl (\<lambda>nr jr. case jr of (j, row) \<Rightarrow> nr[i := (nr ! i)[j + 1 := g row]]) nr (enumerate k rs) =
     nr[i := foldl (\<lambda>l jr. case jr of (j, row) \<Rightarrow> l[j + 1 := g row]) (nr ! i) (enumerate k rs)]"
  by (induction rs arbitrary: nr k) simp_all

lemma fill_transposed_closed:
  assumes "i < length nr" and "nr ! i = replicate (length rs + 1) []"
  shows "fill_transposed rs nr (i, h) = nr[i := h # map (\<lambda>r. cell r (i + 1)) rs]"
proof -
  let ?g = "\<lambda>r. cell r (i + 1)"
  have same: "(\<lambda>newRows jr. case jr of (j, row) \<Rightarrow>
                 if i + 1 < length row
                 then newRows[i := (newRows ! i)[j + 1 := row ! (i + 1)]]
                 else newRows[i := (newRows ! i)[j + 1 := []]]) =
      (\<lambda>nr jr. case jr of (j, row) \<Rightarrow> nr[i := (nr ! i)[j + 1 := ?g row]])"
    by (auto simp: fun_eq_iff cell_def)
  let ?nr = "nr[i := (nr ! i)[0 := h]]"
  have len: "length (?nr ! i) = Suc (0 + length rs)"
    using assms by simp
  have "fill_transposed rs nr (i, h) =
        foldl (\<lambda>nr jr. case jr of (j, row) \<Rightarrow> nr[i := (nr ! i)[j + 1 := ?g row]]) ?nr (enumerate 0 rs)"
    by (simp only: fill_transposed_def prod.case same)
  also have "\<dots> = ?nr[i := foldl (\<lambda>l jr. case jr of (j, row) \<Rightarrow> l[j + 1 := ?g row]) (?nr ! i)
                             (enumerate 0 rs)]"
    using assms(1) by (intro fill_in_row) simp
  also have "foldl (\<lambda>l jr. case jr of (j, row) \<Rightarrow> l[j + 1 := ?g row]) (?nr ! i) (enumerate 0 rs) =
             take (Suc 0) (?nr ! i) @ map ?g rs"
    by (rule fill_cells [OF len])
  also have "take (Suc 0) (?nr ! i) = [h]"
    using assms by simp
  finally show ?thesis by simp
qed

lemma fill_all:
  assumes "length nr = k + length hs"
    and "\<forall>i. k \<le> i \<and> i < length nr \<longrightarrow> nr ! i = replicate (length rs + 1) []"
  shows "foldl (fill_transposed rs) nr (enumerate k hs) =
     take k nr @ map (\<lambda>ih. case ih of (i, h) \<Rightarrow> h # map (\<lambda>r. cell r (i + 1)) rs) (enumerate k hs)"
  using assms
proof (induction hs arbitrary: nr k)
  case Nil
  then show ?case by simp
next
  case (Cons h hs)
  let ?row = "h # map (\<lambda>r. cell r (k + 1)) rs"
  let ?nr = "nr[k := ?row]"
  have k: "k < length nr" using Cons.prems by simp
  have "fill_transposed rs nr (k, h) = ?nr"
    using Cons.prems k by (intro fill_transposed_closed) simp_all
  then have "foldl (fill_transposed rs) nr (enumerate k (h # hs)) =
             foldl (fill_transposed rs) ?nr (enumerate (Suc k) hs)"
    by simp
  also have "\<dots> = take (Suc k) ?nr @
      map (\<lambda>ih. case ih of (i, h) \<Rightarrow> h # map (\<lambda>r. cell r (i + 1)) rs) (enumerate (Suc k) hs)"
    using Cons.prems by (intro Cons.IH) simp_all
  also have "take (Suc k) ?nr = take k nr @ [?row]"
    using k by (simp add: take_Suc_conv_app_nth)
  finally show ?case by simp
qed

lemma Transpose_closed:
  assumes "header t = h0 # hs" and "\<forall>r\<in>set (rows t). r \<noteq> []"
  shows "Transpose t =
     Return \<lparr>FirstColumnFormatter = FirstColumnFormatter t,
             HeaderFormatter = HeaderFormatter t,
             StandoutFormatter = StandoutFormatter t,
             Padding = Padding t,
             Writer = Writer t,
             Width = Width t,
             HeaderSeparatorRune = HeaderSeparatorRune t,
             PrintHeaders = PrintHeaders t,
             header = h0 # map hd (rows t),
             rows = map (\<lambda>ih. case ih of (i, h) \<Rightarrow> h # map (\<lambda>r. cell r (i + 1)) (rows t))
                      (enumerate 0 hs),
             widths = []\<rparr>"
proof -
  have "foldl (fill_transposed (rows t)) (replicate (length hs) (replicate (length (rows t) + 1) []))
          (enumerate 0 hs) =
        take 0 (replicate (length hs) (replicate (length (rows t) + 1) [])) @
        map (\<lambda>ih. case ih of (i, h) \<Rightarrow> h # map (\<lambda>r. cell r (i + 1)) (rows t)) (enumerate 0 hs)"
    by (rule fill_all) simp_all
  moreover have "first_cell (header t) = Return h0"
    using assms(1) by (simp add: first_cell_def)
  ultimately show ?thesis
    using assms by (simp add: Transpose_def header_cells_loop Let_def)
qed

lemma Transpose_panics:
  "header t = [] \<or> (\<exists>r\<in>set (rows t). r = []) \<Longrightarrow> Transpose t = Panic IndexOutOfRange"
proof (cases "header t")
  case Nil
  then show ?thesis by (simp add: Transpose_def first_cell_def)
next
  case (Cons h0 hs)
  assume "header t = [] \<or> (\<exists>r\<in>set (rows t). r = [])"
  with Cons have "\<exists>r\<in>set (rows t). r = []" by simp
  from header_cells_panic [OF this] have
    "for_each (\<lambda>newHeader row. case first_cell row of Panic p \<Rightarrow> Panic p
                                | Return c \<Rightarrow> Return (newHeader @ [c])) (rows t) [h0] =
     Panic IndexOutOfRange" .
  moreover have "first_cell (header t) = Return h0"
    using Cons by (simp add: first_cell_def)
  ultimately show ?thesis by (simp add: Transpose_def)
qed


text \<open>
  \<^verbatim>\<open>Transpose\<close> on a table with at least one column whose rows all have a first cell,
  in closed form (lemma \<open>Transpose_closed\<close>): the new header is the first header cell
  followed by the first cell of every row, and there is one new row for each further
  header cell, which starts with that header cell and continues with the cell of that
  column in every row, empty where the row is too short.  The example of the
  specification is an instance.
\<close>

lemma Transpose_example:
  "Transpose (SetRows (plain [''H0'', ''H1'', ''H2''])
                [[''a1'', ''b1'', ''c1''], [''a2'', ''b2'', ''c2'']]) =
   Return ((plain [''H0'', ''a1'', ''a2''])\<lparr>rows := [[''H1'', ''b1'', ''b2''], [''H2'', ''c1'', ''c2'']]\<rparr>)"
  by (simp add: plain_def SetRows_def Transpose_def first_cell_def fill_transposed_def Let_def)

text \<open>
  C4.  \<^verbatim>\<open>SetRows\<close> stores a row without cells as it is.  On a table with such a row
  \<^verbatim>\<open>Transpose\<close> produces no table: the loop that builds the new header reads cell 0
  of every row without a check, and the program panics with an index out of range.
\<close>

theorem Transpose_empty_row_panics:
  "Transpose (SetRows (plain [''H0'', ''H1'']) [[''a1'', ''b1''], []]) = Panic IndexOutOfRange"
  by (simp add: plain_def SetRows_def Transpose_def first_cell_def)

section \<open>The functions of the package keep tables well formed\<close>

lemma well_formed_New: "well_formed (New D Sprint columnHeaders)"
  by (simp add: well_formed_def New_def)

lemma well_formed_With:
  "well_formed t \<Longrightarrow> well_formed (WithPadding t p)"
  "well_formed t \<Longrightarrow> well_formed (WithHeaderFormatter t f)"
  "well_formed t \<Longrightarrow> well_formed (WithFirstColumnFormatter t f)"
  "well_formed t \<Longrightarrow> well_formed (WithStandoutFormatter t f)"
  "well_formed t \<Longrightarrow> well_formed (WithHeaderSeparatorRow t r)"
  "well_formed t \<Longrightarrow> well_formed (WithWriter t w)"
  "well_formed t \<Longrightarrow> well_formed (WithWidthFunc t g)"
  "well_formed t \<Longrightarrow> well_formed (WithPrintHeaders t b)"
  by (simp_all add: well_formed_def WithPadding_def WithHeaderFormatter_def
      WithFirstColumnFormatter_def WithStandoutFormatter_def WithHeaderSeparatorRow_def
      WithWriter_def WithWidthFunc_def WithPrintHeaders_def)

lemma AddHeadersAsArray_closed: "AddHeadersAsArray t cols = t\<lparr>header := header t @ cols\<rparr>"
  unfolding AddHeadersAsArray_def by (induction cols arbitrary: t) simp_all

lemma well_formed_AddHeader:
  "well_formed t \<Longrightarrow> well_formed (AddHeader t col)"
  "well_formed t \<Longrightarrow> well_formed (AddHeaders t cols)"
  "well_formed t \<Longrightarrow> well_formed (AddHeadersAsArray t cols)"
  by (auto simp: well_formed_def AddHeader_def AddHeaders_def AddHeadersAsArray_closed list_all_iff)

lemma well_formed_AddRow: "well_formed t \<Longrightarrow> well_formed (AddRowAsArray Sprint t vals)"
  by (auto simp: well_formed_def AddRowAsArray_closed list_all_iff)

lemma SetRows_closed:
  "SetRows t rs = t\<lparr>rows := map (\<lambda>row. if length row > length (header t)
                                       then take (length (header t)) row else row) rs\<rparr>"
proof -
  have "foldl (\<lambda>t row. if length row > n then t\<lparr>rows := rows t @ [take n row]\<rparr>
                        else t\<lparr>rows := rows t @ [row]\<rparr>) u rs =
        u\<lparr>rows := rows u @ map (\<lambda>row. if length row > n then take n row else row) rs\<rparr>" for u n
    by (induction rs arbitrary: u) simp_all
  from this [of "length (header t)" "t\<lparr>rows := []\<rparr>"] show ?thesis
    by (simp add: SetRows_def Let_def)
qed

lemma well_formed_SetRows: "well_formed t \<Longrightarrow> well_formed (SetRows t rs)"
  by (auto simp: well_formed_def SetRows_closed list_all_iff)

lemma well_formed_sort:
  "well_formed t \<Longrightarrow> SortBy t n cmp = Return (e, t') \<Longrightarrow> well_formed t'"
  "well_formed t \<Longrightarrow> SortByMultiple t cs = Return (e, t') \<Longrightarrow> well_formed t'"
proof -
  have keep: "SliceStable lessf xs = Return zs \<Longrightarrow> set zs = set xs" for lessf and xs zs :: "string list list"
    using SliceStable_stable [of "\<lambda>_. False" lessf xs zs] by (auto dest: mset_eq_setD)
  show "well_formed t \<Longrightarrow> SortBy t n cmp = Return (e, t') \<Longrightarrow> well_formed t'"
    by (auto simp: SortBy_def well_formed_def list_all_iff split: if_splits run.splits dest!: keep)
  show "well_formed t \<Longrightarrow> SortByMultiple t cs = Return (e, t') \<Longrightarrow> well_formed t'"
    by (auto simp: SortByMultiple_def well_formed_def list_all_iff split: error.splits run.splits dest!: keep)
qed

lemma well_formed_Transpose:
  assumes "well_formed t" and "Transpose t = Return t'"
  shows "well_formed t'"
proof -
  from assms(2) have ne: "header t \<noteq> [] \<and> (\<forall>r\<in>set (rows t). r \<noteq> [])"
    using Transpose_panics [of t] by auto
  then obtain h0 hs where h: "header t = h0 # hs"
    by (cases "header t") auto
  from Transpose_closed [OF h] ne assms show ?thesis
    by (auto simp: well_formed_def list_all_iff in_set_enumerate_eq)
qed

lemma well_formed_Print:
  assumes "well_formed t" and "Print t = Return t'"
  shows "well_formed t'"
proof -
  from Print_frame [OF assms(2)] obtain ws out where
    "t' = t\<lparr>widths := ws, Writer := Writer t @ out\<rparr>"
    by blast
  with assms(1) show ?thesis
    by (simp add: well_formed_def)
qed

lemma well_formed_ExportJSON: "well_formed t \<Longrightarrow> well_formed (snd (ExportJSON enc t k))"
  by (simp add: well_formed_def ExportJSON_def split: sum.splits)

end
